theory Spec2Isabelle
  imports Complex_Main "HOL-Library.Word" "HOL-Library.Log_Nat"
begin

section \<open>Conventions\<close>

text \<open>
  The solver is written in C (with a small C++ cache).  The embedding follows the
  source function by function.

  \<^item> A C \<open>double\<close> is a \<open>real\<close>: arithmetic is exact,
    there is no rounding, no NaN and no infinity.  The one exception is the \<open>long double\<close>
    product of \<open>Cache::hash\<close>, which is modelled with its rounding.
  \<^item> A C \<open>int\<close> or \<open>long\<close> is an \<open>int\<close>; an \<open>unsigned long\<close> is a \<open>64 word\<close>, so its
    arithmetic wraps around.
  \<^item> A route's doubly linked chain of nodes (\<open>nodes\<close> is its head, \<open>tail\<close> its last
    element, \<open>prev\<close>/\<open>next\<close> the links) is the list of its nodes in traversal order; a
    \<open>Node*\<close> into the chain is a position in that list.  A chain always holds its two
    depot sentinels, so a list with fewer than two elements represents no route.
  \<^item> A \<open>Route*\<close> is an address into a store of routes; \<open>None\<close> is the null pointer.
  \<^item> The release build is modelled: the checks under \<open>#ifdef DEBUG\<close> are not compiled in.
  \<^item> The macro \<open>max\<close> of \<open>common.h\<close> (\<open>x > y ? x : y\<close>) and \<open>fmin\<close> are \<open>max\<close> and
    \<open>min\<close> on \<open>real\<close>.
\<close>

type_synonym addr = nat

definition MIN_DELTA :: real where
  "MIN_DELTA = 1 / 10 ^ 13"

definition DEPOT :: int where
  "DEPOT = 0"

text \<open>\<open>enum RouteLength\<close>: the length of a route without customers.\<close>

definition EMPTY :: int where
  "EMPTY = 2"

text \<open>\<open>enum problem_state\<close>.\<close>

definition REDUCE_TRUCKS :: int where
  "REDUCE_TRUCKS = 0"

definition REDUCE_WORKERS :: int where
  "REDUCE_WORKERS = 1"

definition REDUCE_DISTANCE :: int where
  "REDUCE_DISTANCE = 2"

section \<open>Data model\<close>

text \<open>\<open>struct node\<close> without its links (field \<open>id\<close> is \<open>node_id\<close>, \<open>x\<close> and \<open>y\<close> are
  \<open>x_coord\<close> and \<open>y_coord\<close>).\<close>

record node =
  node_id :: int
  x_coord :: real
  y_coord :: real
  demand :: real
  est :: real
  lst :: real
  service_time :: real
  aest :: real
  alst :: real
  aest_cache :: real
  alst_cache :: real

text \<open>The fields of \<open>struct config\<close> that the modelled functions read.\<close>

record config =
  alpha :: real
  mu :: real
  lambda :: real
  rho :: real
  min_pheromone :: real
  max_move :: int
  best_moves :: bool
  cost_truck :: real
  cost_worker :: real
  cost_distance :: real

text \<open>\<open>struct problem\<close>: \<open>c_m pb w i j\<close> is \<open>pb->c_m[w][i][j]\<close> (\<open>w = 0\<close> is the distance
  matrix), \<open>pheromone pb i j\<close> is \<open>pb->pheromone[i][j]\<close>, \<open>pb_nodes\<close> is the array \<open>pb->nodes\<close>
  (the depot first).\<close>

record problem =
  capacity :: nat
  cfg :: config
  c_m :: "int \<Rightarrow> int \<Rightarrow> int \<Rightarrow> real"
  num_nodes :: int
  pheromone :: "int \<Rightarrow> int \<Rightarrow> real"
  pb_nodes :: "node list"

text \<open>\<open>struct route\<close> (field \<open>id\<close> is \<open>route_id\<close>); the back pointer \<open>pb\<close> to the one
  immutable problem is passed to every function instead.\<close>

record route =
  route_id :: int
  depot_id :: int
  nodes :: "node list"
  len :: int
  load :: real
  workers :: int

text \<open>\<open>struct move\<close>: \<open>first_n\<close>, \<open>last_n\<close> are positions in the source chain, \<open>after\<close>
  is a position in the target chain.  The list links \<open>next\<close>/\<open>prev\<close> of moves are never
  read by the modelled functions.\<close>

record move =
  source :: "addr option"
  target :: "addr option"
  first_n :: "nat option"
  last_n :: "nat option"
  after :: "nat option"
  delta_trucks :: int
  delta_workers :: int
  delta_dist :: real
  improving :: int

section \<open>Hierarchical comparison of moves (local\_search.c)\<close>

definition delta_is_higher :: "move \<Rightarrow> int \<Rightarrow> int \<Rightarrow> real \<Rightarrow> int" where
  "delta_is_higher m d_trucks d_workers d_dist =
     (if d_trucks \<noteq> 0 \<and> \<not> (delta_trucks m \<noteq> 0) then 1
      else if d_trucks = delta_trucks m then
        (if d_workers > delta_workers m then 1
         else if d_workers = delta_workers m \<and> d_dist - MIN_DELTA > delta_dist m then 1
         else 0)
      else 0)"

text \<open>The lexicographic order on \<open>(trucks, workers, distance)\<close> the comparator is meant to
  implement; the distance component is greater only beyond the tolerance.\<close>

definition lex_higher :: "int \<times> int \<times> real \<Rightarrow> int \<times> int \<times> real \<Rightarrow> bool" where
  "lex_higher c i =
     (case (c, i) of ((ct, cw, cd), (it, iw, idist)) \<Rightarrow>
        ct > it \<or> (ct = it \<and> (cw > iw \<or> (cw = iw \<and> cd - MIN_DELTA > idist))))"

section \<open>Insertion engine (route.h, route.c)\<close>

text \<open>\<open>struct insertion\<close>: \<open>ins_target\<close> is the \<open>Route*\<close>, \<open>ins_node\<close> the node to insert,
  \<open>ins_after\<close> the position in the target chain after which it goes.  The list links of
  insertions are not read by the functions modelled here.\<close>

record insertion =
  ins_target :: "addr option"
  ins_node :: "node option"
  ins_after :: "nat option"
  cost :: real
  attractiveness :: real

text \<open>\<open>can_insert_one(route, n, pred)\<close>: \<open>pred\<close> is the position of the predecessor in
  the chain, \<open>pred->next\<close> the position after it.  The release build has no check of
  \<open>pred\<close>; callers pass a position before the closing depot.\<close>

definition can_insert_one :: "problem \<Rightarrow> route \<Rightarrow> node \<Rightarrow> nat \<Rightarrow> bool" where
  "can_insert_one pb r n pred =
     (let c = c_m pb (workers r);
          p = nodes r ! pred;
          s = nodes r ! Suc pred;
          earliest_arrival = aest p + c (node_id p) (node_id n);
          latest_arrival = alst s - c (node_id n) (node_id s)
      in earliest_arrival \<le> lst n \<and> latest_arrival \<ge> est n \<and>
         earliest_arrival \<le> latest_arrival)"

text \<open>The capacity guard at the head of \<open>calc_best_insertion\<close> and of
  \<open>get_best_insertion\<close>: \<open>if (pb->capacity < load + demand) return\<close>.\<close>

definition exceeds_capacity :: "problem \<Rightarrow> route \<Rightarrow> node \<Rightarrow> bool" where
  "exceeds_capacity pb r n = (real (capacity pb) < load r + demand n)"

text \<open>One pass of the \<open>while (after != route->tail)\<close> loop of \<open>calc_best_insertion\<close> at
  position \<open>aft\<close>; the state is \<open>(updated, *ins)\<close>.  \<open>cost_time\<close> keeps its initial 0.0
  when \<open>alpha2\<close> is 0, since \<open>alpha2\<close> does not change during the loop.\<close>

definition calc_best_insertion_step ::
  "problem \<Rightarrow> addr \<Rightarrow> route \<Rightarrow> node \<Rightarrow> int \<times> insertion \<Rightarrow> nat \<Rightarrow> int \<times> insertion" where
  "calc_best_insertion_step pb rp r n st aft =
     (let d = c_m pb 0;
          c = c_m pb (workers r);
          alpha2 = 1 - alpha (cfg pb);
          a = nodes r ! aft;
          s = nodes r ! Suc aft
      in if \<not> can_insert_one pb r n aft then st
         else
           let cost_dist = d (node_id a) (node_id n) + d (node_id n) (node_id s)
                 - mu (cfg pb) * d (node_id a) (node_id s);
               cost_time =
                 (if alpha2 \<noteq> 0 then
                    let est_node = max (est n) (aest a + c (node_id a) (node_id n));
                        est_succ = max (est s) (est_node + c (node_id n) (node_id s))
                    in est_succ - aest s
                  else 0);
               cost0 = alpha (cfg pb) * cost_dist + alpha2 * cost_time;
               cost1 = cost0 - lambda (cfg pb) * d 0 (node_id n)
           in if cost1 < cost (snd st)
              then (1, \<lparr>ins_target = Some rp, ins_node = Some n, ins_after = Some aft,
                        cost = cost1, attractiveness = attractiveness (snd st)\<rparr>)
              else st)"

definition calc_best_insertion ::
  "problem \<Rightarrow> addr \<Rightarrow> route \<Rightarrow> node \<Rightarrow> insertion \<Rightarrow> int \<times> insertion" where
  "calc_best_insertion pb rp r n ins =
     (if exceeds_capacity pb r n then (0, ins)
      else foldl (calc_best_insertion_step pb rp r n) (0, ins) [0 ..< length (nodes r) - 1])"

text \<open>One pass of the loop of \<open>get_best_insertion\<close>; \<open>None\<close> is the null \<open>ins\<close>.  The
  assignment \<open>cost *= alpha\<close> is kept as \<open>cost_scaled\<close>; the source overwrites it two lines
  later.  A freshly allocated insertion has attractiveness \<open>-INFINITY\<close>, below every
  \<open>attract\<close>, so the first feasible position is always stored.\<close>

definition get_best_insertion_step ::
  "problem \<Rightarrow> addr \<Rightarrow> route \<Rightarrow> node \<Rightarrow> insertion option \<Rightarrow> nat \<Rightarrow> insertion option" where
  "get_best_insertion_step pb rp r n ins aft =
     (let d = c_m pb 0;
          c = c_m pb (workers r);
          alpha2 = 1 - alpha (cfg pb);
          a = nodes r ! aft;
          s = nodes r ! Suc aft
      in if \<not> can_insert_one pb r n aft then ins
         else
           let cost_dist = d (node_id a) (node_id n) + d (node_id n) (node_id s)
                 - mu (cfg pb) * d (node_id a) (node_id s);
               cost' =
                 (if alpha2 \<noteq> 0 then
                    let cost_scaled = cost_dist * alpha (cfg pb);
                        est_node = max (est n) (aest a + c (node_id a) (node_id n));
                        est_succ = max (aest s) (est_node + c (node_id n) (node_id s))
                    in alpha2 * (est_succ - aest s)
                  else cost_dist);
               attract0 = lambda (cfg pb) * d DEPOT (node_id n) - cost';
               attract = (if attract0 < 0 then MIN_DELTA else attract0);
               new = \<lparr>ins_target = Some rp, ins_node = Some n, ins_after = Some aft,
                        cost = cost', attractiveness = attract\<rparr>
           in case ins of
                None \<Rightarrow> Some new
              | Some old \<Rightarrow> if attract > attractiveness old then Some new else Some old)"

definition get_best_insertion ::
  "problem \<Rightarrow> addr \<Rightarrow> route \<Rightarrow> node \<Rightarrow> insertion option" where
  "get_best_insertion pb rp r n =
     (if exceeds_capacity pb r n then None
      else foldl (get_best_insertion_step pb rp r n) None [0 ..< length (nodes r) - 1])"

text \<open>The insertion cost \<open>c1\<close> of section 4.2 of the specification for inserting \<open>n\<close> after
  position \<open>aft\<close>, with the new earliest start time of the successor.\<close>

definition spec_c1 :: "problem \<Rightarrow> route \<Rightarrow> node \<Rightarrow> nat \<Rightarrow> real" where
  "spec_c1 pb r n aft =
     (let d = c_m pb 0;
          c = c_m pb (workers r);
          a = nodes r ! aft;
          s = nodes r ! Suc aft;
          est_node = max (est n) (aest a + c (node_id a) (node_id n));
          est_succ = max (est s) (est_node + c (node_id n) (node_id s))
      in alpha (cfg pb) * (d (node_id a) (node_id n) + d (node_id n) (node_id s)
           - mu (cfg pb) * d (node_id a) (node_id s))
         + (1 - alpha (cfg pb)) * (est_succ - aest s))"

section \<open>Propagation of start times (route.c)\<close>

text \<open>The loop \<open>while (n->next)\<close> of \<open>calc_ests\<close> when the given worker count is the
  route's own: \<open>p\<close> is the predecessor (already final), the list holds the chain from \<open>n\<close>
  on; the closing depot (the last element) is left as it is.\<close>

fun ests_actual :: "(int \<Rightarrow> int \<Rightarrow> real) \<Rightarrow> node \<Rightarrow> node list \<Rightarrow> node list" where
  "ests_actual c p [] = []"
| "ests_actual c p [t] = [t]"
| "ests_actual c p (n # s # rest) =
     (let n' = n\<lparr>aest := max (est n) (aest p + c (node_id p) (node_id n))\<rparr>
      in n' # ests_actual c n' (s # rest))"

text \<open>The loop \<open>while (n)\<close> of \<open>calc_ests\<close> that fills \<open>aest_cache\<close> for another worker
  count; it runs through the closing depot.\<close>

fun ests_cache :: "(int \<Rightarrow> int \<Rightarrow> real) \<Rightarrow> node \<Rightarrow> node list \<Rightarrow> node list" where
  "ests_cache c p [] = []"
| "ests_cache c p (n # rest) =
     (let n' = n\<lparr>aest_cache := max (est n) (aest_cache p + c (node_id p) (node_id n))\<rparr>
      in n' # ests_cache c n' rest)"

text \<open>\<open>calc_ests(route, n, workers)\<close>; \<open>n\<close> is the position of the first node to update,
  position 0 is the opening depot \<open>route->nodes\<close>.\<close>

definition calc_ests :: "problem \<Rightarrow> route \<Rightarrow> nat \<Rightarrow> int \<Rightarrow> route" where
  "calc_ests pb r n w =
     (let c = c_m pb w; ns = nodes r
      in if workers r = w then
           (if n = 0 then
              (case ns of
                 [] \<Rightarrow> r
               | h # rest \<Rightarrow>
                   let h' = h\<lparr>aest := est h\<rparr> in r\<lparr>nodes := h' # ests_actual c h' rest\<rparr>)
            else r\<lparr>nodes := take n ns @ ests_actual c (ns ! (n - 1)) (drop n ns)\<rparr>)
         else
           (if n = 0 then
              (case ns of
                 [] \<Rightarrow> r
               | h # rest \<Rightarrow>
                   let h' = h\<lparr>aest_cache := est h\<rparr> in r\<lparr>nodes := h' # ests_cache c h' rest\<rparr>)
            else r\<lparr>nodes := take n ns @ ests_cache c (ns ! (n - 1)) (drop n ns)\<rparr>))"

text \<open>The loop \<open>while (n->prev)\<close> of \<open>calc_lsts\<close>: \<open>s\<close> is the successor (already final),
  the list holds the chain from \<open>n\<close> back to the opening depot, which is left as it is.\<close>

fun lsts_actual :: "(int \<Rightarrow> int \<Rightarrow> real) \<Rightarrow> node \<Rightarrow> node list \<Rightarrow> node list" where
  "lsts_actual c s [] = []"
| "lsts_actual c s [h] = [h]"
| "lsts_actual c s (n # p # rest) =
     (let n' = n\<lparr>alst := min (lst n) (alst s - c (node_id n) (node_id s))\<rparr>
      in n' # lsts_actual c n' (p # rest))"

text \<open>\<open>calc_lsts(route, n, workers)\<close>; \<open>n\<close> is the position of the last node to update,
  the last position is the closing depot \<open>route->tail\<close>.\<close>

definition calc_lsts :: "problem \<Rightarrow> route \<Rightarrow> nat \<Rightarrow> int \<Rightarrow> route" where
  "calc_lsts pb r n w =
     (let c = c_m pb w; ns = nodes r
      in if Suc n = length ns then
           (let t = (ns ! n)\<lparr>alst := lst (ns ! n)\<rparr>
            in r\<lparr>nodes := rev (lsts_actual c t (rev (take n ns))) @ [t]\<rparr>)
         else r\<lparr>nodes := rev (lsts_actual c (ns ! Suc n) (rev (take (Suc n) ns)))
                              @ drop (Suc n) ns\<rparr>)"

text \<open>\<open>is_feasible_with(route, workers)\<close> returns its result together with the route,
  whose \<open>aest_cache\<close> values \<open>calc_ests\<close> has overwritten.  The loop starts at
  \<open>route->nodes->next\<close> and returns 0 at the first node whose cached start is too late.\<close>

definition is_feasible_with :: "problem \<Rightarrow> route \<Rightarrow> int \<Rightarrow> int \<times> route" where
  "is_feasible_with pb r w =
     (if workers r = w then (1, r)
      else
        let r' = calc_ests pb r 0 w
        in if list_ex (\<lambda>n. aest_cache n > lst n) (tl (nodes r')) then (0, r') else (1, r'))"

text \<open>The loop of \<open>reduce_service_workers\<close>; the state is \<open>(reduced, route)\<close> and the local
  \<open>workers\<close>.\<close>

function reduce_service_workers_loop ::
  "problem \<Rightarrow> route \<Rightarrow> int \<Rightarrow> int \<Rightarrow> int \<times> route" where
  "reduce_service_workers_loop pb r w reduced =
     (if w \<ge> 1 then
        (case is_feasible_with pb r w of
           (ok, r1) \<Rightarrow>
             if ok \<noteq> 0 then
               reduce_service_workers_loop pb
                 (r1\<lparr>workers := w, nodes := map (\<lambda>n. n\<lparr>aest := aest_cache n\<rparr>) (nodes r1)\<rparr>)
                 (w - 1) 1
             else (reduced, r1))
      else (reduced, r))"
  by pat_completeness auto
termination
  by (relation "measure (\<lambda>(pb, r, w, reduced). nat w)") auto

definition reduce_service_workers :: "problem \<Rightarrow> route \<Rightarrow> int \<times> route" where
  "reduce_service_workers pb r =
     (case reduce_service_workers_loop pb r (workers r - 1) 0 of
        (reduced, r') \<Rightarrow>
          if reduced \<noteq> 0 then (reduced, calc_lsts pb r' (length (nodes r') - 1) (workers r'))
          else (reduced, r'))"

section \<open>Solutions (solution.h)\<close>

text \<open>The routes live in a store indexed by address; \<open>None\<close> is unallocated memory.\<close>

type_synonym route_store = "addr \<Rightarrow> route option"

text \<open>\<open>struct solution\<close>: \<open>routes\<close> is the array of \<open>Route*\<close> with all its slots (the first
  \<open>trucks\<close> of them are in use, \<open>None\<close> is a null pointer), \<open>unrouted\<close> the chain of
  unrouted nodes (field \<open>time\<close> is \<open>sol_time\<close>).\<close>

record solution =
  routes :: "addr option list"
  trucks :: int
  unrouted :: "node list"
  num_unrouted :: int
  sol_time :: int
  saturation_time :: int
  workers_cache :: int
  dist_cache :: real
  cost_cache :: real

text \<open>How a call ends: it returns, or the program terminates through
  \<open>exit(EXIT_FAILURE)\<close> after the given message (with the state it had then), or it
  dereferences a null or dangling pointer.\<close>

datatype 'a outcome = Returns 'a | Exits string 'a | Crashes

section \<open>Tabu bookkeeping (tabu\_search.h, tabu\_search.c)\<close>

text \<open>\<open>struct tabulist\<close>: \<open>nodes_routes tl k r\<close> is \<open>tl->nodes_routes[k][r]\<close>.\<close>

record tabulist =
  active :: int
  iteration :: "64 word"
  nodes_routes :: "int \<Rightarrow> int \<Rightarrow> 64 word"
  nodes_routes_tabutime :: "64 word"

text \<open>The nodes \<open>m->first, ..., m->last\<close> of a move, read from the chain of the route
  \<open>src\<close> that \<open>m->source\<close> points to.\<close>

definition move_run :: "route \<Rightarrow> move \<Rightarrow> node list" where
  "move_run src m =
     (case (first_n m, last_n m) of
        (Some f, Some l) \<Rightarrow> take (Suc l - f) (drop f (nodes src))
      | _ \<Rightarrow> [])"

text \<open>\<open>is_move_tabu(tl, m)\<close>; \<open>src\<close> and \<open>tgt\<close> are the routes \<open>m->source\<close> and \<open>m->target\<close>
  point to.  The do-while loop returns 1 at the first node of the run whose entry for the
  target route is greater than the iteration counter.\<close>

definition is_move_tabu :: "tabulist \<Rightarrow> route \<Rightarrow> route \<Rightarrow> move \<Rightarrow> int" where
  "is_move_tabu tbl src tgt m =
     (if active tbl = 0 then 0
      else if list_ex (\<lambda>n. nodes_routes tbl (node_id n) (route_id tgt) > iteration tbl)
                (move_run src m)
      then 1 else 0)"

text \<open>\<open>update_tabulist_move(tl, m)\<close>: the counter is incremented first, then every node of
  the run gets \<open>iteration + tabutime\<close> in the column of the source route.\<close>

definition update_tabulist_move :: "tabulist \<Rightarrow> route \<Rightarrow> move \<Rightarrow> tabulist" where
  "update_tabulist_move tbl src m =
     (if active tbl = 0 then tbl
      else
        let it = iteration tbl + 1
        in tbl\<lparr>iteration := it,
              nodes_routes :=
                foldl (\<lambda>T n. T(node_id n := (T (node_id n))
                                   (route_id src := it + nodes_routes_tabutime tbl)))
                  (nodes_routes tbl) (move_run src m)\<rparr>)"



section \<open>Pheromone update (ant\_colony\_optimization.c)\<close>

text \<open>\<open>p_m[i][j] += v\<close>.\<close>

definition add_pheromone ::
  "(int \<Rightarrow> int \<Rightarrow> real) \<Rightarrow> int \<Rightarrow> int \<Rightarrow> real \<Rightarrow> (int \<Rightarrow> int \<Rightarrow> real)" where
  "add_pheromone P i j v = P(i := (P i)(j := P i j + v))"

text \<open>The two nested loops over \<open>i, j = 1 .. 2 * num_nodes - 2\<close>: every such cell is
  written once, with \<open>max(p_m[i][j] * rho, min_pheromone)\<close>; row and column 0 are skipped.\<close>

definition decay_pheromone ::
  "int \<Rightarrow> real \<Rightarrow> real \<Rightarrow> (int \<Rightarrow> int \<Rightarrow> real) \<Rightarrow> (int \<Rightarrow> int \<Rightarrow> real)" where
  "decay_pheromone nn rh minp P =
     (\<lambda>i j. if 1 \<le> i \<and> i < 2 * nn - 1 \<and> 1 \<le> j \<and> j < 2 * nn - 1
            then max (P i j * rh) minp else P i j)"

text \<open>The loop \<open>while (n->next)\<close> along the interior edges: \<open>p\<close> is \<open>n->prev\<close>, the list is the
  chain from \<open>n\<close> on; it stops at the closing depot.\<close>

fun reinforce_edges ::
  "(int \<Rightarrow> int \<Rightarrow> real) \<Rightarrow> real \<Rightarrow> node \<Rightarrow> node list \<Rightarrow> (int \<Rightarrow> int \<Rightarrow> real)" where
  "reinforce_edges P v p [] = P"
| "reinforce_edges P v p [t] = P"
| "reinforce_edges P v p (n # s # rest) =
     reinforce_edges (add_pheromone P (node_id p) (node_id n) v) v n (s # rest)"

text \<open>The body of the loop over the routes for route number \<open>r\<close>.  On a route without
  customers \<open>nodes->next->next\<close> is null and the loop condition \<open>n->next\<close> dereferences it:
  the result is \<open>None\<close>.\<close>

definition reinforce_route ::
  "(int \<Rightarrow> int \<Rightarrow> real) \<Rightarrow> real \<Rightarrow> int \<Rightarrow> int \<Rightarrow> route \<Rightarrow> (int \<Rightarrow> int \<Rightarrow> real) option" where
  "reinforce_route P v nn r rt =
     (case nodes rt of
        h # c # n # rest \<Rightarrow>
          let P1 = add_pheromone P (nn + r) (node_id c) v;
              tail_prev = nodes rt ! (length (nodes rt) - 2);
              P2 = add_pheromone P1 (node_id tail_prev) (nn + r) v
          in Some (reinforce_edges P2 v c (n # rest))
      | _ \<Rightarrow> None)"

text \<open>The loop \<open>for (r = 0; r < sol->trucks; ++r)\<close> over the remaining route numbers.\<close>

fun reinforce_routes ::
  "route_store \<Rightarrow> solution \<Rightarrow> real \<Rightarrow> int \<Rightarrow> (int \<Rightarrow> int \<Rightarrow> real) \<Rightarrow> nat list
     \<Rightarrow> (int \<Rightarrow> int \<Rightarrow> real) option" where
  "reinforce_routes rs sol v nn P [] = Some P"
| "reinforce_routes rs sol v nn P (r # others) =
     (if length (routes sol) \<le> r then None
      else case routes sol ! r of
        None \<Rightarrow> None
      | Some a \<Rightarrow>
          (case rs a of
             None \<Rightarrow> None
           | Some rt \<Rightarrow>
               (case reinforce_route P v nn (int r) rt of
                  None \<Rightarrow> None
                | Some P' \<Rightarrow> reinforce_routes rs sol v nn P' others)))"

definition update_pheromone :: "route_store \<Rightarrow> problem \<Rightarrow> solution \<Rightarrow> problem outcome" where
  "update_pheromone rs pb sol =
     (let rh = rho (cfg pb);
          new_pheromone = 1 - rh;
          P0 = decay_pheromone (num_nodes pb) rh (min_pheromone (cfg pb)) (pheromone pb)
      in case reinforce_routes rs sol new_pheromone (num_nodes pb) P0 [0 ..< nat (trucks sol)] of
           None \<Rightarrow> Crashes
         | Some P' \<Rightarrow> Returns (pb\<lparr>pheromone := P'\<rparr>))"

text \<open>Every route in use is allocated and has at least one customer.\<close>

definition routes_nonempty :: "route_store \<Rightarrow> solution \<Rightarrow> bool" where
  "routes_nonempty rs sol =
     (nat (trucks sol) \<le> length (routes sol) \<and>
      list_all (\<lambda>slot. case slot of
                  None \<Rightarrow> False
                | Some a \<Rightarrow> (case rs a of None \<Rightarrow> False | Some rt \<Rightarrow> 3 \<le> length (nodes rt)))
        (take (nat (trucks sol)) (routes sol)))"

section \<open>Routes of a solution (route.c, solution.c)\<close>

text \<open>The data that \<open>clone_node\<close> copies; the two caches of the clone are set to -1.\<close>

definition clone_node_fields :: "node \<Rightarrow> node" where
  "clone_node_fields n = n\<lparr>aest_cache := - 1, alst_cache := - 1\<rparr>"

text \<open>\<open>new_depot(pb)\<close> clones \<open>pb->nodes[DEPOT]\<close>.\<close>

definition new_depot :: "problem \<Rightarrow> node" where
  "new_depot pb = clone_node_fields (pb_nodes pb ! nat DEPOT)"

text \<open>\<open>free_route\<close> releases the route and the nodes of its chain.\<close>

definition free_route :: "route_store \<Rightarrow> addr \<Rightarrow> route_store" where
  "free_route rs a = rs(a := None)"

text \<open>\<open>new_route(sol, seed, workers)\<close>; \<open>a\<close> is the address \<open>s_malloc\<close> returns for the
  route.  Writing the slot \<open>sol->routes[sol->trucks]\<close> outside the array has no defined
  behaviour.\<close>

definition new_route ::
  "problem \<Rightarrow> route_store \<Rightarrow> solution \<Rightarrow> addr \<Rightarrow> node \<Rightarrow> int
     \<Rightarrow> (route_store \<times> solution \<times> addr) outcome" where
  "new_route pb rs sol a seed w =
     (if trucks sol < 0 \<or> length (routes sol) \<le> nat (trucks sol) then Crashes
      else
        let route0 = \<lparr>route_id = trucks sol, depot_id = num_nodes pb + trucks sol,
                       nodes = [new_depot pb, seed, new_depot pb], len = 3,
                       load = demand seed, workers = w\<rparr>;
            route1 = calc_ests pb route0 0 w;
            route2 = calc_lsts pb route1 2 w
        in Returns (rs(a \<mapsto> route2),
                    sol\<lparr>routes := (routes sol)[nat (trucks sol) := Some a],
                        trucks := trucks sol + 1\<rparr>, a))"

text \<open>The loop \<open>for (i = route_idx; i < sol->trucks; ++i) routes[i] = routes[i+1]\<close> of
  \<open>remove_route\<close>, with \<open>n\<close> the decremented \<open>sol->trucks\<close>.\<close>

function shift_routes :: "addr option list \<Rightarrow> nat \<Rightarrow> nat \<Rightarrow> addr option list" where
  "shift_routes rts i n = (if i < n then shift_routes (rts[i := rts ! Suc i]) (Suc i) n else rts)"
  by pat_completeness auto
termination
  by (relation "measure (\<lambda>(rts, i, n). n - i)") auto

text \<open>\<open>remove_route(sol, route_idx)\<close>.  An index outside the array, a null slot or a
  dangling pointer has no defined behaviour.\<close>

definition remove_route ::
  "route_store \<Rightarrow> solution \<Rightarrow> nat \<Rightarrow> (route_store \<times> solution) outcome" where
  "remove_route rs sol route_idx =
     (if length (routes sol) \<le> route_idx then Crashes
      else case routes sol ! route_idx of
        None \<Rightarrow> Crashes
      | Some a \<Rightarrow>
          (case rs a of
             None \<Rightarrow> Crashes
           | Some rt \<Rightarrow>
               if \<not> (len rt = EMPTY)
               then Exits ''remove_route tried to remove non-empty route'' (rs, sol)
               else
                 let rs' = free_route rs a;
                     trucks' = trucks sol - 1;
                     rts = shift_routes (routes sol) route_idx (nat trucks')
                 in Returns (rs', sol\<lparr>trucks := trucks', routes := rts[nat trucks' := None]\<rparr>)))"

text \<open>The loop of \<open>reset_solution\<close> over the route numbers still to visit; the state is
  the store, the array and the chain of unrouted nodes.  On a route whose \<open>len\<close> is not
  \<open>EMPTY\<close> the customers are prepended to the unrouted chain; if that leaves the chain
  empty, \<open>sol->unrouted->prev = NULL\<close> dereferences a null pointer.\<close>

fun reset_routes ::
  "route_store \<Rightarrow> addr option list \<Rightarrow> node list \<Rightarrow> nat list
     \<Rightarrow> (route_store \<times> addr option list \<times> node list) option" where
  "reset_routes rs rts unr [] = Some (rs, rts, unr)"
| "reset_routes rs rts unr (i # others) =
     (if length rts \<le> i then None
      else case rts ! i of
        None \<Rightarrow> None
      | Some a \<Rightarrow>
          (case rs a of
             None \<Rightarrow> None
           | Some r \<Rightarrow>
               if len r = EMPTY
               then reset_routes (free_route rs a) (rts[i := None]) unr others
               else
                 let unr' = butlast (tl (nodes r)) @ unr
                 in if unr' = [] then None
                    else reset_routes (free_route rs a) (rts[i := None]) unr' others))"

definition reset_solution ::
  "route_store \<Rightarrow> solution \<Rightarrow> int \<Rightarrow> (route_store \<times> solution) outcome" where
  "reset_solution rs sol nn =
     (case reset_routes rs (routes sol) (unrouted sol) [0 ..< nat (trucks sol)] of
        None \<Rightarrow> Crashes
      | Some (rs', rts, unr) \<Rightarrow>
          Returns (rs', sol\<lparr>routes := rts, unrouted := unr, num_unrouted := nn - 1, trucks := 0,
                             workers_cache := 0, dist_cache := 0, sol_time := 0,
                             saturation_time := 0\<rparr>))"

text \<open>The functions of the sources that assign \<open>sol->trucks\<close> of an existing solution
  (\<open>new_solution\<close> and \<open>clone_solution\<close> set the field of the solution they create).\<close>

datatype trucks_writer =
  New_route addr node int
| Remove_route nat
| Reset_solution int

fun run_writer ::
  "problem \<Rightarrow> trucks_writer \<Rightarrow> route_store \<times> solution \<Rightarrow> (route_store \<times> solution) outcome" where
  "run_writer pb (New_route a seed w) (rs, sol) =
     (case new_route pb rs sol a seed w of
        Returns (rs', sol', r) \<Rightarrow> Returns (rs', sol')
      | Exits msg (rs', sol', r) \<Rightarrow> Exits msg (rs', sol')
      | Crashes \<Rightarrow> Crashes)"
| "run_writer pb (Remove_route i) (rs, sol) = remove_route rs sol i"
| "run_writer pb (Reset_solution nn) (rs, sol) = reset_solution rs sol nn"

text \<open>The routes in use are allocated, and no two slots in use hold the same address.\<close>

definition slots_valid :: "route_store \<Rightarrow> solution \<Rightarrow> bool" where
  "slots_valid rs sol =
     (0 \<le> trucks sol \<and> nat (trucks sol) \<le> length (routes sol) \<and>
      list_all (\<lambda>slot. case slot of None \<Rightarrow> False | Some a \<Rightarrow> rs a \<noteq> None)
        (take (nat (trucks sol)) (routes sol)) \<and>
      distinct (take (nat (trucks sol)) (routes sol)))"

section \<open>Moves between routes (node.h, route.h, route.c, local\_search.c)\<close>

definition DBL_MAX :: real where
  "DBL_MAX = (2 - 1 / 2 ^ 52) * 2 ^ 1023"

text \<open>\<open>init_move(m, improving)\<close> overwrites the whole move; its parameter is a \<open>bool\<close>.\<close>

definition init_move :: "int \<Rightarrow> move" where
  "init_move imp =
     \<lparr>source = None, target = None, first_n = None, last_n = None, after = None,
      delta_trucks = 0, delta_workers = 0,
      delta_dist = (if imp \<noteq> 0 then 0 else - DBL_MAX),
      improving = (if imp \<noteq> 0 then 1 else 0)\<rparr>"

text \<open>\<open>sum_demands(first, last)\<close> over the run \<open>first, ..., last\<close>, which is never empty.\<close>

definition sum_demands :: "node list \<Rightarrow> real" where
  "sum_demands run = foldl (\<lambda>d n. d + demand n) (demand (hd run)) (tl run)"

text \<open>\<open>calc_delta_dist_move(d, first, last, after)\<close> with \<open>first\<close>, \<open>last\<close> at the
  positions \<open>f\<close>, \<open>l\<close> of the source chain and \<open>after\<close> at position \<open>aft\<close> of the target
  chain.\<close>

definition calc_delta_dist_move ::
  "(int \<Rightarrow> int \<Rightarrow> real) \<Rightarrow> route \<Rightarrow> nat \<Rightarrow> nat \<Rightarrow> route \<Rightarrow> nat \<Rightarrow> real" where
  "calc_delta_dist_move d src f l tgt aft =
     (let first_prev = node_id (nodes src ! (f - 1));
          first = node_id (nodes src ! f);
          last = node_id (nodes src ! l);
          last_next = node_id (nodes src ! Suc l);
          a = node_id (nodes tgt ! aft);
          a_next = node_id (nodes tgt ! Suc aft)
      in d first_prev first + d last last_next - d first_prev last_next
         + d a a_next - d a first - d last a_next)"

text \<open>The loop of \<open>move_reduces_workers\<close>, run on the source route with the run spliced
  out.\<close>

function move_reduces_workers_loop ::
  "problem \<Rightarrow> route \<Rightarrow> int \<Rightarrow> int \<Rightarrow> int \<Rightarrow> int \<times> route" where
  "move_reduces_workers_loop pb r min_reduction max_reduction reduction =
     (if min_reduction \<le> max_reduction then
        (case is_feasible_with pb r (workers r - min_reduction) of
           (ok, r1) \<Rightarrow>
             if ok \<noteq> 0
             then move_reduces_workers_loop pb r1 (min_reduction + 1) max_reduction min_reduction
             else (reduction, r1))
      else (reduction, r))"
  by pat_completeness auto
termination
  by (relation "measure (\<lambda>(pb, r, mn, mx, red). nat (mx + 1 - mn))") auto

text \<open>\<open>move_reduces_workers(source, first, last, min_reduction)\<close> returns the reduction
  and the source route, in which \<open>is_feasible_with\<close> has overwritten \<open>aest_cache\<close> values.
  The run is unlinked for the test and linked in again afterwards.\<close>

definition move_reduces_workers ::
  "problem \<Rightarrow> route \<Rightarrow> nat \<Rightarrow> nat \<Rightarrow> int \<Rightarrow> int \<times> route" where
  "move_reduces_workers pb src f l min_reduction =
     (let max_reduction = workers src - 1;
          min_reduction' = (if min_reduction = 0 then min_reduction + 1 else min_reduction);
          run = take (Suc l - f) (drop f (nodes src));
          spliced = src\<lparr>nodes := take f (nodes src) @ drop (Suc l) (nodes src)\<rparr>
      in case move_reduces_workers_loop pb spliced min_reduction' max_reduction 0 of
           (reduction, spliced') \<Rightarrow>
             (reduction,
              spliced'\<lparr>nodes := take f (nodes spliced') @ run @ drop f (nodes spliced')\<rparr>))"

text \<open>The forward simulation of \<open>can_insert\<close> along the run: \<open>t\<close> is the start time at
  the predecessor, \<open>p\<close> its id.  It stops at the first node that would be served too late;
  the nodes visited have their \<open>aest_cache\<close> overwritten.\<close>

fun can_insert_run ::
  "(int \<Rightarrow> int \<Rightarrow> real) \<Rightarrow> real \<Rightarrow> int \<Rightarrow> node list \<Rightarrow> bool \<times> node list" where
  "can_insert_run c t p [] = (True, [])"
| "can_insert_run c t p (n # rest) =
     (let v = max (t + c p (node_id n)) (est n);
          n' = n\<lparr>aest_cache := v\<rparr>
      in if v > lst n then (False, n' # rest)
         else case can_insert_run c v (node_id n) rest of (ok, rest') \<Rightarrow> (ok, n' # rest'))"

text \<open>\<open>can_insert(target, first, last, after)\<close> on the run \<open>first, ..., last\<close>; it returns
  its result and the run with the caches it has written.\<close>

definition can_insert :: "problem \<Rightarrow> route \<Rightarrow> node list \<Rightarrow> nat \<Rightarrow> bool \<times> node list" where
  "can_insert pb tgt run aft =
     (let c = c_m pb (workers tgt);
          a = nodes tgt ! aft;
          s = nodes tgt ! Suc aft
      in case can_insert_run c (aest a) (node_id a) run of
           (ok, run') \<Rightarrow>
             if \<not> ok then (False, run')
             else (aest_cache (last run') + c (node_id (last run')) (node_id s) \<le> alst s, run'))"

text \<open>The inner loop \<open>while (after != target->tail)\<close> of \<open>update_move\<close> over the remaining
  positions of \<open>after\<close>; the state is \<open>(updated, *m, source route)\<close>.  The first component
  of the result tells whether \<open>return 1\<close> has left the function (first-improvement mode).
  \<open>sp\<close> and \<open>tp\<close> are the addresses of the source and the target route.\<close>

fun update_move_after ::
  "problem \<Rightarrow> tabulist \<Rightarrow> addr \<Rightarrow> addr \<Rightarrow> route \<Rightarrow> int \<Rightarrow> int \<Rightarrow> nat \<Rightarrow> nat \<Rightarrow> nat list
     \<Rightarrow> int \<times> move \<times> route \<Rightarrow> bool \<times> int \<times> move \<times> route" where
  "update_move_after pb tb sp tp tgt dt dw f l [] st = (False, st)"
| "update_move_after pb tb sp tp tgt dt dw f l (aft # afts) (updated, m, src) =
     (let delta_dist' = calc_delta_dist_move (c_m pb 0) src f l tgt aft
      in if delta_is_higher m dt dw delta_dist' \<noteq> 0 then
           (case can_insert pb tgt (take (Suc l - f) (drop f (nodes src))) aft of
              (ok, run') \<Rightarrow>
                let src' = src\<lparr>nodes := take f (nodes src) @ run' @ drop (Suc l) (nodes src)\<rparr>;
                    candidate =
                      \<lparr>source = Some sp, target = Some tp, first_n = Some f, last_n = Some l,
                       after = Some aft, delta_trucks = dt, delta_workers = dw,
                       delta_dist = delta_dist', improving = improving m\<rparr>
                in if ok then
                     (if is_move_tabu tb src' tgt candidate = 0 then
                        (if \<not> best_moves (cfg pb) then (True, 1, candidate, src')
                         else update_move_after pb tb sp tp tgt dt dw f l afts (1, candidate, src'))
                      else update_move_after pb tb sp tp tgt dt dw f l afts (updated, m, src'))
                   else update_move_after pb tb sp tp tgt dt dw f l afts (updated, m, src'))
         else update_move_after pb tb sp tp tgt dt dw f l afts (updated, m, src))"

text \<open>The outer loop \<open>while (last->next)\<close> over the remaining positions of \<open>first\<close>;
  \<open>count\<close> is the number of nodes moved, \<open>dw0\<close> the initial \<open>delta_workers\<close>.\<close>

fun update_move_first ::
  "problem \<Rightarrow> tabulist \<Rightarrow> addr \<Rightarrow> addr \<Rightarrow> route \<Rightarrow> int \<Rightarrow> int \<Rightarrow> int \<Rightarrow> nat \<Rightarrow> nat list
     \<Rightarrow> int \<times> move \<times> route \<Rightarrow> bool \<times> int \<times> move \<times> route" where
  "update_move_first pb tb sp tp tgt state dt dw0 count [] st = (False, st)"
| "update_move_first pb tb sp tp tgt state dt dw0 count (f # fs) (updated, m, src) =
     (let l = f + count - 1
      in if real (capacity pb) < load tgt + sum_demands (take count (drop f (nodes src)))
         then update_move_first pb tb sp tp tgt state dt dw0 count fs (updated, m, src)
         else
           (case (if state \<ge> REDUCE_WORKERS \<and> \<not> (dt \<noteq> 0)
                  then move_reduces_workers pb src f l (delta_workers m)
                  else (dw0, src)) of
              (dw, src1) \<Rightarrow>
                (case update_move_after pb tb sp tp tgt dt dw f l
                        [0 ..< length (nodes tgt) - 1] (updated, m, src1) of
                   (True, st') \<Rightarrow> (True, st')
                 | (False, st') \<Rightarrow>
                     update_move_first pb tb sp tp tgt state dt dw0 count fs st')))"

text \<open>\<open>update_move(m, source, target, state, len)\<close> returns \<open>updated\<close>, the move and the
  source route (whose \<open>aest_cache\<close> values the probes have overwritten).  The length field
  of a route is the length of its chain, and \<open>len\<close> is at least 1.\<close>

definition update_move ::
  "problem \<Rightarrow> tabulist \<Rightarrow> move \<Rightarrow> addr \<Rightarrow> route \<Rightarrow> addr \<Rightarrow> route \<Rightarrow> int \<Rightarrow> int
     \<Rightarrow> int \<times> move \<times> route" where
  "update_move pb tb m sp src tp tgt state len' =
     (if max_move (cfg pb) < len' then (0, m, src)
      else if len src < EMPTY + len' then (0, m, src)
      else
        let delta_trucks' = (if len src = EMPTY + len' then 1 else 0);
            delta_workers' = (if delta_trucks' \<noteq> 0 then workers src else 0)
        in if delta_trucks m = 1 \<and> \<not> (delta_trucks' \<noteq> 0) then (0, m, src)
           else snd (update_move_first pb tb sp tp tgt state delta_trucks' delta_workers'
                       (nat len') [1 ..< length (nodes src) - nat len'] (0, m, src)))"

text \<open>\<open>remove_nodes_noupdate(r, first, last)\<close> and \<open>remove_nodes(r, first, last)\<close>.\<close>

definition remove_nodes_noupdate :: "route \<Rightarrow> nat \<Rightarrow> nat \<Rightarrow> route" where
  "remove_nodes_noupdate r f l =
     (let run = take (Suc l - f) (drop f (nodes r))
      in r\<lparr>load := foldl (\<lambda>ld n. ld - demand n) (load r) run,
            len := len r - int (length run),
            nodes := take f (nodes r) @ drop (Suc l) (nodes r)\<rparr>)"

definition remove_nodes :: "problem \<Rightarrow> route \<Rightarrow> nat \<Rightarrow> nat \<Rightarrow> route" where
  "remove_nodes pb r f l =
     (let r1 = remove_nodes_noupdate r f l;
          r2 = calc_ests pb r1 f (workers r1)
      in calc_lsts pb r2 (f - 1) (workers r2))"

text \<open>\<open>add_nodes_noupdate(r, first, last, after)\<close> and \<open>add_nodes(r, first, last, after)\<close>
  for the unlinked run \<open>first, ..., last\<close>.\<close>

definition add_nodes_noupdate :: "route \<Rightarrow> node list \<Rightarrow> nat \<Rightarrow> route" where
  "add_nodes_noupdate r run aft =
     r\<lparr>load := foldl (\<lambda>ld n. ld + demand n) (load r) run,
       len := len r + int (length run),
       nodes := take (Suc aft) (nodes r) @ run @ drop (Suc aft) (nodes r)\<rparr>"

definition add_nodes :: "problem \<Rightarrow> route \<Rightarrow> node list \<Rightarrow> nat \<Rightarrow> route" where
  "add_nodes pb r run aft =
     (let r1 = add_nodes_noupdate r run aft;
          r2 = calc_ests pb r1 (Suc aft) (workers r1)
      in calc_lsts pb r2 (aft + length run) (workers r2))"

text \<open>The loop of \<open>get_route_index\<close>; \<open>Returns None\<close> stands for falling out of the loop,
  where the function prints its error and exits.\<close>

fun get_route_index_from ::
  "route_store \<Rightarrow> solution \<Rightarrow> int \<Rightarrow> nat list \<Rightarrow> nat option outcome" where
  "get_route_index_from rs sol rid [] = Returns None"
| "get_route_index_from rs sol rid (i # others) =
     (if length (routes sol) \<le> i then Crashes
      else case routes sol ! i of
        None \<Rightarrow> Crashes
      | Some a \<Rightarrow>
          (case rs a of
             None \<Rightarrow> Crashes
           | Some r \<Rightarrow>
               if route_id r = rid then Returns (Some i)
               else get_route_index_from rs sol rid others))"

definition get_route_index :: "route_store \<Rightarrow> solution \<Rightarrow> int \<Rightarrow> nat option outcome" where
  "get_route_index rs sol rid = get_route_index_from rs sol rid [0 ..< nat (trucks sol)]"

text \<open>\<open>calc_workers(sol)\<close>.\<close>

fun calc_workers_from :: "route_store \<Rightarrow> solution \<Rightarrow> int \<Rightarrow> nat list \<Rightarrow> int option" where
  "calc_workers_from rs sol w [] = Some w"
| "calc_workers_from rs sol w (i # others) =
     (if length (routes sol) \<le> i then None
      else case routes sol ! i of
        None \<Rightarrow> None
      | Some a \<Rightarrow>
          (case rs a of
             None \<Rightarrow> None
           | Some r \<Rightarrow> calc_workers_from rs sol (w + workers r) others))"

definition calc_workers :: "route_store \<Rightarrow> solution \<Rightarrow> int outcome" where
  "calc_workers rs sol =
     (case calc_workers_from rs sol 0 [0 ..< nat (trucks sol)] of
        None \<Rightarrow> Crashes
      | Some w \<Rightarrow> Returns w)"

text \<open>The last step of \<open>perform_move\<close>: \<open>add_nodes(m->target, ...)\<close> followed by
  \<open>init_move\<close>.  A target that has been freed is a dangling pointer.\<close>

definition finish_move ::
  "problem \<Rightarrow> route_store \<Rightarrow> solution \<Rightarrow> tabulist \<Rightarrow> move \<Rightarrow> addr \<Rightarrow> node list \<Rightarrow> nat
     \<Rightarrow> (route_store \<times> solution \<times> tabulist \<times> move) outcome" where
  "finish_move pb rs sol tb m tp run aft =
     (case rs tp of
        None \<Rightarrow> Crashes
      | Some tgt \<Rightarrow>
          Returns (rs(tp \<mapsto> add_nodes pb tgt run aft), sol, tb, init_move (improving m)))"

text \<open>\<open>perform_move(sol, m)\<close>, with the tabu list \<open>sol->pb->tl\<close> as part of the state.\<close>

definition perform_move ::
  "problem \<Rightarrow> route_store \<Rightarrow> solution \<Rightarrow> tabulist \<Rightarrow> move
     \<Rightarrow> (route_store \<times> solution \<times> tabulist \<times> move) outcome" where
  "perform_move pb rs sol tb m =
     (case first_n m of
        None \<Rightarrow> Returns (rs, sol, tb, m)
      | Some f \<Rightarrow>
          (case (source m, target m, last_n m, after m) of
             (Some sp, Some tp, Some l, Some aft) \<Rightarrow>
               (case rs sp of
                  None \<Rightarrow> Crashes
                | Some src \<Rightarrow>
                    let tb' = update_tabulist_move tb src m;
                        run = move_run src m
                    in if delta_trucks m \<noteq> 0 then
                         (let rs1 = rs(sp \<mapsto> remove_nodes_noupdate src f l)
                          in case get_route_index rs1 sol (route_id src) of
                               Returns (Some idx) \<Rightarrow>
                                 (case remove_route rs1 sol idx of
                                    Returns (rs2, sol2) \<Rightarrow> finish_move pb rs2 sol2 tb' m tp run aft
                                  | Exits msg (rs2, sol2) \<Rightarrow> Exits msg (rs2, sol2, tb', m)
                                  | Crashes \<Rightarrow> Crashes)
                             | Returns None \<Rightarrow>
                                 Exits ''ERROR: get_route_index: route_id not found''
                                   (rs1, sol, tb', m)
                             | _ \<Rightarrow> Crashes)
                       else if delta_workers m \<noteq> 0 then
                         (let src1 = remove_nodes_noupdate src f l;
                              src2 = src1\<lparr>workers := workers src1 - delta_workers m\<rparr>;
                              src3 = calc_ests pb src2 0 (workers src2);
                              src4 = calc_lsts pb src3 (length (nodes src3) - 1) (workers src3)
                          in finish_move pb (rs(sp \<mapsto> src4)) sol tb' m tp run aft)
                       else finish_move pb (rs(sp \<mapsto> remove_nodes pb src f l)) sol tb' m tp run aft)
           | _ \<Rightarrow> Crashes))"

text \<open>No route in use other than the one at \<open>sp\<close> carries the route id \<open>rid\<close>.\<close>

definition id_unique :: "route_store \<Rightarrow> solution \<Rightarrow> addr \<Rightarrow> int \<Rightarrow> bool" where
  "id_unique rs sol sp rid =
     list_all (\<lambda>slot. case slot of
                 None \<Rightarrow> True
               | Some a \<Rightarrow> a = sp \<or> (case rs a of None \<Rightarrow> True | Some r \<Rightarrow> route_id r \<noteq> rid))
       (take (nat (trucks sol)) (routes sol))"

section \<open>Solution cache (cache.hpp, cache.cpp)\<close>

text \<open>
  \<open>Cache::hash\<close> multiplies in \<open>long double\<close>, whose rounding decides the hash, so this
  one type is modelled with its rounding: a \<open>long double\<close> is the x87 extended format with
  a significand of 64 bits, and an operation rounds its exact result to the nearest
  representable number, to the one with an even significand on a tie.  The exponent range
  is not modelled: the product of a \<open>double\<close> and a 64-bit integer lies inside it.
\<close>

definition round_half_even :: "real \<Rightarrow> int" where
  "round_half_even q =
     (let f = \<lfloor>q\<rfloor>; d = q - of_int f
      in if d < 1 / 2 then f else if 1 / 2 < d then f + 1 else if even f then f else f + 1)"

text \<open>For \<open>x > 0\<close>, the exponent \<open>e\<close> with \<open>2^e \<le> x < 2^(e+1)\<close>, and the distance between
  neighbouring numbers with 64 significant bits at \<open>x\<close>.\<close>

definition ld_exponent :: "real \<Rightarrow> int" where
  "ld_exponent x = (if 1 \<le> x then bitlen \<lfloor>x\<rfloor> - 1 else - bitlen (\<lceil>1 / x\<rceil> - 1))"

definition ld_ulp :: "real \<Rightarrow> real" where
  "ld_ulp x =
     (let e = ld_exponent x
      in if 63 \<le> e then 2 ^ nat (e - 63) else 1 / 2 ^ nat (63 - e))"

definition to_long_double :: "real \<Rightarrow> real" where
  "to_long_double x =
     (if x = 0 then 0
      else if x < 0 then - (of_int (round_half_even (- x / ld_ulp (- x))) * ld_ulp (- x))
      else of_int (round_half_even (x / ld_ulp x)) * ld_ulp x)"

text \<open>\<open>static_cast<unsigned long int>(v)\<close> truncates towards zero; it has no defined
  behaviour when the truncated value is not an \<open>unsigned long\<close>.\<close>

definition to_unsigned_long :: "real \<Rightarrow> 64 word option" where
  "to_unsigned_long v =
     (if v \<le> - 1 \<or> 2 ^ 64 \<le> v then None
      else Some (word_of_int (if v < 0 then 0 else \<lfloor>v\<rfloor>)))"

text \<open>\<open>class Cache\<close>: the map \<open>m_cache\<close> and \<open>m_factor\<close> (the reference \<open>m_cfg\<close> is used for
  printing only).  The constructor divides \<open>ULONG_MAX\<close> by \<open>pb.num_nodes\<close>, converted to
  \<open>unsigned long\<close>; a division by zero has no defined behaviour.\<close>

record cache =
  m_cache :: "64 word \<Rightarrow> 64 word option"
  m_factor :: "64 word"

definition Cache :: "problem \<Rightarrow> cache option" where
  "Cache pb =
     (if (word_of_int (num_nodes pb) :: 64 word) = 0 then None
      else Some \<lparr>m_cache = (\<lambda>h. None), m_factor = (- 1) div word_of_int (num_nodes pb)\<rparr>)"

text \<open>\<open>Cache::hash(s)\<close>: \<open>cost\<close> is \<open>s.cost_cache\<close> as a \<open>long double\<close> (an exact conversion,
  as is that of \<open>m_factor\<close>), and \<open>cost * m_factor\<close> is rounded to \<open>long double\<close>.\<close>

definition Cache_hash :: "cache \<Rightarrow> solution \<Rightarrow> 64 word option" where
  "Cache_hash c s =
     to_unsigned_long (to_long_double (cost_cache s * real (unat (m_factor c))))"

text \<open>\<open>Cache::add(s)\<close> and \<open>Cache::contains(s)\<close>; the latter returns its result and the
  cache.\<close>

definition Cache_add :: "cache \<Rightarrow> solution \<Rightarrow> cache option" where
  "Cache_add c s =
     (case Cache_hash c s of
        None \<Rightarrow> None
      | Some h \<Rightarrow> Some (c\<lparr>m_cache := (m_cache c)(h \<mapsto> 1)\<rparr>))"

definition Cache_contains :: "cache \<Rightarrow> solution \<Rightarrow> (64 word \<times> cache) option" where
  "Cache_contains c s =
     (case Cache_hash c s of
        None \<Rightarrow> None
      | Some h \<Rightarrow>
          (case m_cache c h of
             Some v \<Rightarrow> Some (v + 1, c\<lparr>m_cache := (m_cache c)(h \<mapsto> v + 1)\<rparr>)
           | None \<Rightarrow> Some (0, c)))"

section \<open>Auxiliary notions for the proofs\<close>

text \<open>The fields of a node that no start-time propagation writes.\<close>

definition static_node :: "node \<Rightarrow> int \<times> real \<times> real" where
  "static_node = (\<lambda>n. (node_id n, est n, lst n))"

definition static :: "route \<Rightarrow> (int \<times> real \<times> real) list" where
  "static r = map static_node (nodes r)"

definition late_node :: "node \<Rightarrow> real \<times> real" where
  "late_node = (\<lambda>n. (aest_cache n, lst n))"

text \<open>Two routes agree in everything but the contents of their nodes.\<close>

definition same_shape :: "route \<Rightarrow> route \<Rightarrow> bool" where
  "same_shape r r' =
     (route_id r' = route_id r \<and> depot_id r' = depot_id r \<and> len r' = len r \<and>
      load r' = load r \<and> workers r' = workers r \<and> length (nodes r') = length (nodes r))"

text \<open>The move \<open>m'\<close> is a candidate that \<open>update_move\<close> has stored for the run at positions
  \<open>f .. l\<close> with the deltas \<open>dt\<close> and \<open>dw\<close>, and \<open>delta_is_higher\<close> rates these deltas and the
  distance saving of \<open>m'\<close> higher than the move \<open>inc\<close>.\<close>

definition stored_candidate ::
  "addr \<Rightarrow> addr \<Rightarrow> int \<Rightarrow> int \<Rightarrow> nat \<Rightarrow> nat \<Rightarrow> nat list \<Rightarrow> move \<Rightarrow> move \<Rightarrow> bool" where
  "stored_candidate sp tp dt dw f l afts inc m' =
     (source m' = Some sp \<and> target m' = Some tp \<and> first_n m' = Some f \<and> last_n m' = Some l \<and>
      list_ex (\<lambda>aft. after m' = Some aft) afts \<and>
      delta_trucks m' = dt \<and> delta_workers m' = dw \<and>
      delta_is_higher inc dt dw (delta_dist m') \<noteq> 0)"

text \<open>The sum of the workers over a list of array slots, as \<open>calc_workers\<close> forms it.\<close>

fun slots_workers :: "route_store \<Rightarrow> addr option list \<Rightarrow> int option" where
  "slots_workers rs [] = Some 0"
| "slots_workers rs (None # rest) = None"
| "slots_workers rs (Some a # rest) =
     (case rs a of
        None \<Rightarrow> None
      | Some r \<Rightarrow> map_option (\<lambda>w. workers r + w) (slots_workers rs rest))"

section \<open>Example data\<close>

text \<open>A problem with the depot 0 and the customers 1 and 2 on a 3-4-5 triangle, service
  times 6 and 12, and the cost matrices \<open>c_m[w][i][j] = d(i,j) + service(i) / w\<close> as
  \<open>get_cost_matrix\<close> builds them.\<close>

definition ex_node :: "int \<Rightarrow> real \<Rightarrow> real \<Rightarrow> real \<Rightarrow> real \<Rightarrow> real \<Rightarrow> node" where
  "ex_node i dem e l ae al =
     \<lparr>node_id = i, x_coord = 0, y_coord = 0, demand = dem, est = e, lst = l,
      service_time = (if i = 1 then 6 else if i = 2 then 12 else 0),
      aest = ae, alst = al, aest_cache = - 1, alst_cache = - 1\<rparr>"

definition ex_dist :: "int \<Rightarrow> int \<Rightarrow> real" where
  "ex_dist i j =
     (if i = j then 0
      else if i + j = 1 then 4
      else if i + j = 3 then 3
      else 5)"

definition ex_c_m :: "int \<Rightarrow> int \<Rightarrow> int \<Rightarrow> real" where
  "ex_c_m w i j =
     (if w = 0 \<or> i = j then ex_dist i j
      else ex_dist i j + (if i = 1 then 6 else if i = 2 then 12 else 0) / real_of_int w)"

definition ex_pb :: "real \<Rightarrow> problem" where
  "ex_pb al =
     \<lparr>capacity = 200,
      cfg = \<lparr>alpha = al, mu = 1, lambda = 2, rho = 985 / 1000, min_pheromone = 1 / 10 ^ 13,
             max_move = 2, best_moves = True, cost_truck = 1, cost_worker = 1 / 10,
             cost_distance = 1 / 10000\<rparr>,
      c_m = ex_c_m, num_nodes = 3, pheromone = (\<lambda>i j. 1),
      pb_nodes = [ex_node 0 0 0 20 (- 1) (- 1), ex_node 1 7 0 100 (- 1) (- 1),
                  ex_node 2 10 0 100 (- 1) (- 1)]\<rparr>"

text \<open>The route \<open>depot, 2, depot\<close> with three workers, as \<open>new_route\<close> leaves it: the
  closing depot keeps the \<open>aest = -1\<close> of the problem's depot node.\<close>

definition ex_route :: route where
  "ex_route =
     \<lparr>route_id = 0, depot_id = 3,
      nodes = [ex_node 0 0 0 20 0 (- 1), ex_node 2 10 0 100 5 11, ex_node 0 0 0 20 (- 1) 20],
      len = 3, load = 10, workers = 3\<rparr>"

definition ex_k :: node where
  "ex_k = ex_node 1 7 0 100 (- 1) (- 1)"

text \<open>Tabu search data: an active, fresh tabu list with tabu time 2; the move of
  customer 2 off route 0; a later move of customer 1 off route 2; and the candidate move
  of customer 2 from route 1 back onto route 0.\<close>

definition ex_tabulist :: tabulist where
  "ex_tabulist =
     \<lparr>active = 1, iteration = 0, nodes_routes = (\<lambda>k r. 0), nodes_routes_tabutime = 2\<rparr>"

definition ex_route_of :: "int \<Rightarrow> node \<Rightarrow> route" where
  "ex_route_of i n =
     \<lparr>route_id = i, depot_id = 3 + i,
      nodes = [ex_node 0 0 0 20 0 (- 1), n, ex_node 0 0 0 20 (- 1) 20],
      len = 3, load = demand n, workers = 3\<rparr>"

definition ex_move :: "addr \<Rightarrow> addr \<Rightarrow> move" where
  "ex_move a b =
     \<lparr>source = Some a, target = Some b, first_n = Some 1, last_n = Some 1, after = Some 0,
      delta_trucks = 1, delta_workers = 3, delta_dist = 0, improving = 0\<rparr>"

text \<open>A solution with the single route \<open>ex_route\<close>, stored at address 10; its array has
  two slots.\<close>

definition ex_store :: route_store where
  "ex_store = (\<lambda>a. if a = 10 then Some ex_route else None)"

definition ex_sol :: solution where
  "ex_sol =
     \<lparr>routes = [Some 10, None], trucks = 1, unrouted = [ex_k], num_unrouted = 1, sol_time = 0,
      saturation_time = 0, workers_cache = 3, dist_cache = 10, cost_cache = 5 / 4\<rparr>"

text \<open>A solution with two routes: an emptied route at address 20 and the route of
  customer 1 at address 21; its array has three slots.\<close>

definition ex_empty_route :: route where
  "ex_empty_route =
     \<lparr>route_id = 0, depot_id = 3,
      nodes = [ex_node 0 0 0 20 0 (- 1), ex_node 0 0 0 20 (- 1) 20],
      len = 2, load = 0, workers = 3\<rparr>"

definition ex_store2 :: route_store where
  "ex_store2 =
     (\<lambda>a. if a = 20 then Some ex_empty_route
          else if a = 21 then Some (ex_route_of 1 ex_k) else None)"

definition ex_sol2 :: solution where
  "ex_sol2 =
     \<lparr>routes = [Some 20, Some 21, None], trucks = 2, unrouted = [], num_unrouted = 0,
      sol_time = 0, saturation_time = 0, workers_cache = 6, dist_cache = 8,
      cost_cache = 13 / 5\<rparr>"

text \<open>A solution with the route \<open>ex_route\<close> at address 10 and the route \<open>depot, 1, depot\<close>
  at address 21.  \<open>ex_source\<close> is the latter as \<open>new_route\<close> leaves it, \<open>ex_probed\<close> the same
  route after \<open>can_insert\<close> has written the \<open>aest_cache\<close> of customer 1.\<close>

definition ex_source :: route where
  "ex_source =
     \<lparr>route_id = 1, depot_id = 4,
      nodes = [ex_node 0 0 0 20 0 (- 1), ex_node 1 7 0 100 4 14, ex_node 0 0 0 20 (- 1) 20],
      len = 3, load = 7, workers = 3\<rparr>"

definition ex_probed :: route where
  "ex_probed =
     ex_source\<lparr>nodes := [ex_node 0 0 0 20 0 (- 1), (ex_node 1 7 0 100 4 14)\<lparr>aest_cache := 4\<rparr>,
                          ex_node 0 0 0 20 (- 1) 20]\<rparr>"

definition ex_store3 :: route_store where
  "ex_store3 =
     (\<lambda>a. if a = 10 then Some ex_route
          else if a = 21 then Some ex_probed else None)"

definition ex_sol3 :: solution where
  "ex_sol3 =
     \<lparr>routes = [Some 10, Some 21, None], trucks = 2, unrouted = [], num_unrouted = 0,
      sol_time = 0, saturation_time = 0, workers_cache = 6, dist_cache = 18,
      cost_cache = 13 / 5\<rparr>"

text \<open>Caches as the constructor builds them for 3 and for 101 nodes, and a solution of cost
  30.75.\<close>

definition ex_cache :: cache where
  "ex_cache = \<lparr>m_cache = (\<lambda>h. None), m_factor = 6148914691236517205\<rparr>"

definition ex_cache_101 :: cache where
  "ex_cache_101 = \<lparr>m_cache = (\<lambda>h. None), m_factor = 182641030432767837\<rparr>"

definition ex_sol_3075 :: solution where
  "ex_sol_3075 = ex_sol\<lparr>cost_cache := 123 / 4\<rparr>"




section \<open>Properties\<close>

text \<open>
  Claim C3.  For an incumbent move whose \<open>delta_trucks\<close> is 0 or 1 and a candidate whose
  \<open>d_trucks\<close> is 0 or 1, \<open>delta_is_higher\<close> returns 1 exactly when the candidate triple
  \<open>(d_trucks, d_workers, d_dist)\<close> is lexicographically strictly greater than the incumbent's
  \<open>(delta_trucks, delta_workers, delta_dist)\<close>, the distance counting as greater only when
  \<open>d_dist - MIN_DELTA > delta_dist\<close> with \<open>MIN_DELTA = 1e-13\<close>; otherwise it returns 0.
\<close>

theorem delta_is_higher_lex:
  assumes "delta_trucks m \<in> {0, 1}" and "d_trucks \<in> {0, 1}"
  shows "(delta_is_higher m d_trucks d_workers d_dist = 1 \<longleftrightarrow>
            lex_higher (d_trucks, d_workers, d_dist)
              (delta_trucks m, delta_workers m, delta_dist m))
         \<and> delta_is_higher m d_trucks d_workers d_dist \<in> {0, 1}
         \<and> MIN_DELTA = 1 / 10000000000000"
  using assms by (auto simp: delta_is_higher_def lex_higher_def MIN_DELTA_def)

theorem delta_is_higher_lex_witness:
  "delta_is_higher
     \<lparr>source = None, target = None, first_n = None, last_n = None, after = None,
      delta_trucks = 0, delta_workers = 2, delta_dist = 5, improving = 1\<rparr> 0 2 (5 + 1 / 10 ^ 12) = 1
   \<and> delta_is_higher
     \<lparr>source = None, target = None, first_n = None, last_n = None, after = None,
      delta_trucks = 0, delta_workers = 2, delta_dist = 5, improving = 1\<rparr> 0 2 (5 + 1 / 10 ^ 14) = 0
   \<and> delta_is_higher
     \<lparr>source = None, target = None, first_n = None, last_n = None, after = None,
      delta_trucks = 1, delta_workers = 0, delta_dist = 0, improving = 1\<rparr> 0 7 100 = 0"
proof -
  let ?m = "\<lparr>source = None, target = None, first_n = None, last_n = None, after = None,
      delta_trucks = 0, delta_workers = 2, delta_dist = 5, improving = 1\<rparr>"
  let ?k = "\<lparr>source = None, target = None, first_n = None, last_n = None, after = None,
      delta_trucks = 1, delta_workers = 0, delta_dist = 0, improving = 1\<rparr>"
  have a: "delta_is_higher ?m 0 2 (5 + 1 / 10 ^ 12) = 1"
    using delta_is_higher_lex [of ?m 0 2 "5 + 1 / 10 ^ 12"]
    by (simp add: lex_higher_def MIN_DELTA_def)
  have b: "delta_is_higher ?m 0 2 (5 + 1 / 10 ^ 14) = 0"
    using delta_is_higher_lex [of ?m 0 2 "5 + 1 / 10 ^ 14"]
    by (auto simp add: lex_higher_def MIN_DELTA_def)
  have c: "delta_is_higher ?k 0 7 100 = 0"
    using delta_is_higher_lex [of ?k 0 7 100]
    by (auto simp add: lex_higher_def MIN_DELTA_def)
  from a b c show ?thesis by blast
qed


subsection \<open>Single-node insertion test\<close>

lemma calc_best_insertion_step_rejected:
  "\<not> can_insert_one pb r n aft \<Longrightarrow> calc_best_insertion_step pb rp r n st aft = st"
  by (simp add: calc_best_insertion_step_def Let_def)

lemma calc_best_insertion_loop_accepts:
  "foldl (calc_best_insertion_step pb rp r n) (0, ins) ps = (u, ins') \<Longrightarrow> u \<noteq> 0 \<Longrightarrow>
   \<exists>p \<in> set ps. ins_after ins' = Some p \<and> can_insert_one pb r n p"
proof (induction ps arbitrary: u ins' rule: rev_induct)
  case Nil
  then show ?case by simp
next
  case (snoc q ps)
  obtain u0 i0 where st: "foldl (calc_best_insertion_step pb rp r n) (0, ins) ps = (u0, i0)"
    by force
  from snoc.prems(1) st have step: "calc_best_insertion_step pb rp r n (u0, i0) q = (u, ins')"
    by simp
  show ?case
  proof (cases "calc_best_insertion_step pb rp r n (u0, i0) q = (u0, i0)")
    case True
    with step have "(u, ins') = (u0, i0)" by simp
    with snoc.IH [OF st] snoc.prems(2) show ?thesis by auto
  next
    case False
    then have "can_insert_one pb r n q"
      using calc_best_insertion_step_rejected by blast
    moreover from False step have "ins_after ins' = Some q"
      by (auto simp: calc_best_insertion_step_def Let_def split: if_splits)
    ultimately show ?thesis by simp
  qed
qed

lemma calc_best_insertion_accepts:
  assumes "calc_best_insertion pb rp r n ins = (u, ins')" and "u \<noteq> 0"
  shows "\<exists>p. Suc p < length (nodes r) \<and> ins_after ins' = Some p \<and>
             \<not> exceeds_capacity pb r n \<and> can_insert_one pb r n p"
proof -
  from assms have cap: "\<not> exceeds_capacity pb r n"
    by (auto simp: calc_best_insertion_def split: if_splits)
  with assms(1) have "foldl (calc_best_insertion_step pb rp r n) (0, ins)
      [0 ..< length (nodes r) - 1] = (u, ins')"
    by (simp add: calc_best_insertion_def)
  from calc_best_insertion_loop_accepts [OF this assms(2)] cap show ?thesis
    by auto
qed

text \<open>
  Claim C1.  For a node \<open>k\<close> with \<open>est k \<le> lst k\<close> and a position \<open>p\<close> of route \<open>r\<close> that is
  not the closing depot, the single-node insertion test of the construction engine (the
  capacity guard of \<open>calc_best_insertion\<close> together with \<open>can_insert_one\<close>) accepts inserting
  \<open>k\<close> between \<open>p\<close> and its successor if and only if
  \<open>max (aest p + tau p k) (est k) \<le> lst k\<close>, \<open>alst (next p) - tau k (next p) \<ge> est k\<close>,
  \<open>aest p + tau p k \<le> alst (next p) - tau k (next p)\<close> and \<open>load r + demand k \<le> capacity\<close>,
  where \<open>tau\<close> is the cost matrix of the route's worker count.
\<close>

theorem insertion_test_iff:
  assumes "est k \<le> lst k" and "Suc p < length (nodes r)"
  shows "(\<not> exceeds_capacity pb r k \<and> can_insert_one pb r k p) \<longleftrightarrow>
     (let tau = c_m pb (workers r); a = nodes r ! p; s = nodes r ! Suc p
      in max (aest a + tau (node_id a) (node_id k)) (est k) \<le> lst k
         \<and> alst s - tau (node_id k) (node_id s) \<ge> est k
         \<and> aest a + tau (node_id a) (node_id k) \<le> alst s - tau (node_id k) (node_id s)
         \<and> load r + demand k \<le> real (capacity pb))"
  using assms by (auto simp: exceeds_capacity_def can_insert_one_def Let_def)

theorem insertion_test_iff_witness:
  "est ex_k \<le> lst ex_k \<and> Suc 0 < length (nodes ex_route) \<and>
   \<not> exceeds_capacity (ex_pb 1) ex_route ex_k \<and> can_insert_one (ex_pb 1) ex_route ex_k 0"
proof -
  have h: "est ex_k \<le> lst ex_k" "Suc 0 < length (nodes ex_route)"
    by (simp_all add: ex_k_def ex_node_def ex_route_def)
  from insertion_test_iff [OF h, of "ex_pb 1"] h show ?thesis
    by (simp add: ex_k_def ex_node_def ex_route_def ex_pb_def ex_c_m_def ex_dist_def Let_def)
qed

subsection \<open>Best insertion of the GRASP constructor\<close>

text \<open>
  Claim C2 says that the \<open>cost\<close> field of the insertion returned by \<open>get_best_insertion\<close> is
  \<open>c1 = alpha * (d(p,k) + d(k,p.next) - mu * d(p,p.next)) + (1 - alpha) * (est_succ' -
  aest(p.next))\<close> and its \<open>attractiveness\<close> is \<open>lambda * d(0,k) - c1\<close>.  With \<open>alpha = 1/2\<close>,
  on the example route and node, the function returns the insertion after the opening
  depot with cost 2 and attractiveness 6, while \<open>c1\<close> at that position is 3 (and
  \<open>lambda * d(0,k) - c1\<close> is 5): the distance term, scaled by \<open>cost *= alpha\<close>, is overwritten
  by the time term instead of being added to it.
\<close>

theorem get_best_insertion_drops_distance_term:
  "get_best_insertion (ex_pb (1 / 2)) 7 ex_route ex_k =
     Some \<lparr>ins_target = Some 7, ins_node = Some ex_k, ins_after = Some 0,
           cost = 2, attractiveness = 6\<rparr>
   \<and> spec_c1 (ex_pb (1 / 2)) ex_route ex_k 0 = 3
   \<and> lambda (cfg (ex_pb (1 / 2))) * c_m (ex_pb (1 / 2)) 0 0 (node_id ex_k)
        - spec_c1 (ex_pb (1 / 2)) ex_route ex_k 0 = 5"
  by (simp add: get_best_insertion_def exceeds_capacity_def get_best_insertion_step_def
        can_insert_one_def spec_c1_def ex_pb_def ex_route_def ex_k_def ex_node_def ex_c_m_def
        ex_dist_def Let_def DEPOT_def MIN_DELTA_def numeral_2_eq_2)


subsection \<open>Reducing service workers\<close>

lemma static_node_update [simp]:
  "static_node (n\<lparr>aest := v\<rparr>) = static_node n"
  "static_node (n\<lparr>alst := v\<rparr>) = static_node n"
  "static_node (n\<lparr>aest_cache := v\<rparr>) = static_node n"
  by (simp_all add: static_node_def)

lemma static_ests_cache: "map static_node (ests_cache c p ns) = map static_node ns"
  by (induction ns arbitrary: p) (simp_all add: Let_def)

lemma static_ests_actual: "map static_node (ests_actual c p ns) = map static_node ns"
  by (induction c p ns rule: ests_actual.induct) (simp_all add: Let_def)

lemma static_lsts_actual: "map static_node (lsts_actual c s ns) = map static_node ns"
  by (induction c s ns rule: lsts_actual.induct) (simp_all add: Let_def)

lemma static_calc_ests: "static (calc_ests pb r n w) = static r"
proof -
  have "map static_node (take n (nodes r)) @ map static_node (drop n (nodes r))
        = map static_node (nodes r)"
    by (simp flip: map_append)
  then show ?thesis
    by (auto simp: calc_ests_def static_def Let_def static_ests_cache static_ests_actual
          split: list.splits)
qed

lemma workers_calc_ests: "workers (calc_ests pb r n w) = workers r"
  by (auto simp: calc_ests_def Let_def split: list.splits)

lemma static_calc_lsts: "static (calc_lsts pb r n w) = static r"
proof (cases "Suc n = length (nodes r)")
  case True
  then have "take n (nodes r) @ [nodes r ! n] = nodes r"
    by (metis lessI take_Suc_conv_app_nth take_all order_refl)
  then have "map static_node (take n (nodes r)) @ [static_node (nodes r ! n)]
        = map static_node (nodes r)"
    by (metis list.simps(8,9) map_append)
  with True show ?thesis
    by (simp add: calc_lsts_def static_def Let_def static_lsts_actual rev_map [symmetric])
next
  case False
  have "map static_node (take (Suc n) (nodes r)) @ map static_node (drop (Suc n) (nodes r))
        = map static_node (nodes r)"
    by (simp flip: map_append)
  with False show ?thesis
    by (simp add: calc_lsts_def static_def Let_def static_lsts_actual rev_map [symmetric])
qed

lemma workers_calc_lsts: "workers (calc_lsts pb r n w) = workers r"
  by (simp add: calc_lsts_def Let_def)

declare reduce_service_workers_loop.simps [simp del]

lemma ests_cache_cong:
  "map static_node ns = map static_node ns' \<Longrightarrow> node_id p = node_id p' \<Longrightarrow>
   aest_cache p = aest_cache p' \<Longrightarrow>
   map late_node (ests_cache c p ns) = map late_node (ests_cache c p' ns')"
proof (induction ns arbitrary: ns' p p')
  case Nil
  then show ?case by simp
next
  case (Cons n ns)
  then obtain n' ms where ns': "ns' = n' # ms" by (cases ns') auto
  with Cons.prems have eq: "static_node n = static_node n'" "map static_node ns = map static_node ms"
    by simp_all
  let ?v = "max (est n) (aest_cache p + c (node_id p) (node_id n))"
  have v: "max (est n') (aest_cache p' + c (node_id p') (node_id n')) = ?v"
    using eq(1) Cons.prems(2,3) by (simp add: static_node_def)
  have "map late_node (ests_cache c (n\<lparr>aest_cache := ?v\<rparr>) ns)
      = map late_node (ests_cache c (n'\<lparr>aest_cache := ?v\<rparr>) ms)"
    using eq(1) by (intro Cons.IH [OF eq(2)]) (simp_all add: static_node_def)
  then show ?case
    unfolding ns' using eq(1) v by (simp add: Let_def late_node_def static_node_def)
qed

lemma list_ex_late:
  "list_ex (\<lambda>n. aest_cache n > lst n) xs = list_ex (\<lambda>(a, l). a > l) (map late_node xs)"
  by (induction xs) (simp_all add: late_node_def)

lemma is_feasible_with_static:
  assumes "static r = static r'" "workers r \<noteq> w" "workers r' \<noteq> w"
  shows "fst (is_feasible_with pb r w) = fst (is_feasible_with pb r' w)"
proof (cases "nodes r")
  case Nil
  with assms(1) have "nodes r' = []" by (simp add: static_def)
  with Nil assms show ?thesis by (simp add: is_feasible_with_def calc_ests_def Let_def)
next
  case (Cons h rest)
  with assms(1) obtain h' rest' where r': "nodes r' = h' # rest'"
    and eq: "static_node h = static_node h'" "map static_node rest = map static_node rest'"
    by (cases "nodes r'") (auto simp: static_def)
  have "map late_node (ests_cache (c_m pb w) (h\<lparr>aest_cache := est h\<rparr>) rest)
      = map late_node (ests_cache (c_m pb w) (h'\<lparr>aest_cache := est h'\<rparr>) rest')"
    using eq by (intro ests_cache_cong) (simp_all add: static_node_def)
  with Cons r' assms(2,3) show ?thesis
    by (simp add: is_feasible_with_def calc_ests_def Let_def list_ex_late)
qed

lemma is_feasible_with_frame:
  "static (snd (is_feasible_with pb r w)) = static r"
  "workers (snd (is_feasible_with pb r w)) = workers r"
  by (simp_all add: is_feasible_with_def Let_def static_calc_ests workers_calc_ests)

lemma loop_unfold_stop:
  "w < 1 \<Longrightarrow> reduce_service_workers_loop pb r w red = (red, r)"
  by (subst reduce_service_workers_loop.simps) simp

lemma loop_unfold_infeasible:
  "1 \<le> w \<Longrightarrow> fst (is_feasible_with pb r w) = 0 \<Longrightarrow>
   reduce_service_workers_loop pb r w red = (red, snd (is_feasible_with pb r w))"
  by (subst reduce_service_workers_loop.simps) (simp add: split_beta)

lemma loop_unfold_feasible:
  "1 \<le> w \<Longrightarrow> fst (is_feasible_with pb r w) \<noteq> 0 \<Longrightarrow>
   reduce_service_workers_loop pb r w red =
     reduce_service_workers_loop pb
       ((snd (is_feasible_with pb r w))
          \<lparr>workers := w,
           nodes := map (\<lambda>n. n\<lparr>aest := aest_cache n\<rparr>) (nodes (snd (is_feasible_with pb r w)))\<rparr>)
       (w - 1) 1"
  by (subst reduce_service_workers_loop.simps) (simp add: split_beta)

lemma loop_exit:
  "reduce_service_workers_loop pb r w red = (red', r') \<Longrightarrow> w = workers r - 1 \<Longrightarrow>
   (workers r' - 1 < 1 \<or> fst (is_feasible_with pb r' (workers r' - 1)) = 0)"
proof (induction pb r w red rule: reduce_service_workers_loop.induct)
  case (1 pb r w reduced)
  show ?case
  proof (cases "w \<ge> 1")
    case False
    with "1.prems" show ?thesis by (simp add: loop_unfold_stop)
  next
    case True
    obtain ok r1 where f: "is_feasible_with pb r w = (ok, r1)" by force
    have fr: "static r1 = static r" "workers r1 = workers r"
      using is_feasible_with_frame [of pb r w] f by simp_all
    show ?thesis
    proof (cases "ok = 0")
      case ok: True
      with True f "1.prems"(1) have r': "r' = r1"
        by (simp add: loop_unfold_infeasible)
      have "fst (is_feasible_with pb r1 w) = fst (is_feasible_with pb r w)"
        using fr "1.prems"(2) by (intro is_feasible_with_static) simp_all
      with f ok r' fr "1.prems"(2) show ?thesis by simp
    next
      case ok: False
      let ?r2 = "r1\<lparr>workers := w, nodes := map (\<lambda>n. n\<lparr>aest := aest_cache n\<rparr>) (nodes r1)\<rparr>"
      from ok True f "1.prems"(1)
      have "reduce_service_workers_loop pb ?r2 (w - 1) 1 = (red', r')"
        by (simp add: loop_unfold_feasible)
      from "1.IH" [OF True f [symmetric] ok this] show ?thesis by simp
    qed
  qed
qed

text \<open>
  Claim C6.  Calling \<open>reduce_service_workers\<close> a second time immediately after a first
  call, on the route the first call left, returns 0 and leaves the worker count unchanged.
  (The feasibility test for a smaller worker count reads only the ids and time windows of
  the nodes and the cost matrix, none of which the first call changes.)
\<close>

theorem reduce_service_workers_idempotent:
  "fst (reduce_service_workers pb (snd (reduce_service_workers pb r))) = 0 \<and>
   workers (snd (reduce_service_workers pb (snd (reduce_service_workers pb r))))
     = workers (snd (reduce_service_workers pb r))"
proof -
  obtain red r' where l: "reduce_service_workers_loop pb r (workers r - 1) 0 = (red, r')"
    by force
  let ?r1 = "snd (reduce_service_workers pb r)"
  have r1: "static ?r1 = static r'" "workers ?r1 = workers r'"
    using l by (simp_all add: reduce_service_workers_def static_calc_lsts workers_calc_lsts)
  have ex: "workers r' - 1 < 1 \<or> fst (is_feasible_with pb r' (workers r' - 1)) = 0"
    using loop_exit [OF l] by simp
  have ex1: "workers ?r1 - 1 < 1 \<or> fst (is_feasible_with pb ?r1 (workers ?r1 - 1)) = 0"
  proof (cases "workers r' - 1 < 1")
    case True
    with r1 show ?thesis by simp
  next
    case False
    with ex have "fst (is_feasible_with pb r' (workers r' - 1)) = 0" by simp
    moreover have "fst (is_feasible_with pb ?r1 (workers r' - 1))
        = fst (is_feasible_with pb r' (workers r' - 1))"
      using r1 by (intro is_feasible_with_static) simp_all
    ultimately show ?thesis using r1 by simp
  qed
  have "reduce_service_workers_loop pb ?r1 (workers ?r1 - 1) 0
      = (0, if workers ?r1 - 1 < 1 then ?r1 else snd (is_feasible_with pb ?r1 (workers ?r1 - 1)))"
  proof (cases "workers ?r1 - 1 < 1")
    case True
    then show ?thesis by (simp add: loop_unfold_stop)
  next
    case False
    with ex1 show ?thesis by (simp add: loop_unfold_infeasible)
  qed
  then show ?thesis
    by (simp add: reduce_service_workers_def [of pb ?r1] is_feasible_with_frame)
qed

theorem reduce_service_workers_idempotent_witness:
  "fst (reduce_service_workers (ex_pb 1) ex_route) = 1 \<and>
   workers (snd (reduce_service_workers (ex_pb 1) ex_route)) = 2 \<and>
   fst (reduce_service_workers (ex_pb 1) (snd (reduce_service_workers (ex_pb 1) ex_route))) = 0 \<and>
   workers (snd (reduce_service_workers (ex_pb 1)
      (snd (reduce_service_workers (ex_pb 1) ex_route)))) = 2"
proof -
  let ?pb = "ex_pb 1"
  let ?f2 = "is_feasible_with ?pb ex_route 2"
  let ?r2 = "(snd ?f2)\<lparr>workers := 2,
     nodes := map (\<lambda>n. n\<lparr>aest := aest_cache n\<rparr>) (nodes (snd ?f2))\<rparr>"
  have w: "workers ex_route - 1 = 2" by (simp add: ex_route_def)
  have a: "fst ?f2 \<noteq> 0"
    by (simp add: is_feasible_with_def calc_ests_def ex_route_def ex_pb_def ex_node_def
          ex_c_m_def ex_dist_def Let_def)
  have b: "fst (is_feasible_with ?pb ?r2 1) = 0"
    by (simp add: is_feasible_with_def calc_ests_def ex_route_def ex_pb_def ex_node_def
          ex_c_m_def ex_dist_def Let_def)
  have "reduce_service_workers_loop ?pb ex_route 2 0 = reduce_service_workers_loop ?pb ?r2 1 1"
    using loop_unfold_feasible [of 2 ?pb ex_route 0] a by simp
  also have "\<dots> = (1, snd (is_feasible_with ?pb ?r2 1))"
    using loop_unfold_infeasible [of 1 ?pb ?r2 1] b by simp
  finally have l: "reduce_service_workers_loop ?pb ex_route (workers ex_route - 1) 0
      = (1, snd (is_feasible_with ?pb ?r2 1))"
    using w by simp
  have first: "fst (reduce_service_workers ?pb ex_route) = 1"
    "workers (snd (reduce_service_workers ?pb ex_route)) = 2"
    using l by (simp_all add: reduce_service_workers_def workers_calc_lsts is_feasible_with_frame)
  from first reduce_service_workers_idempotent [of ?pb ex_route] show ?thesis
    by simp
qed

subsection \<open>Tabu window\<close>









subsection \<open>Pheromone lower bound\<close>

lemma add_pheromone_mono: "0 \<le> v \<Longrightarrow> P a b \<le> add_pheromone P i j v a b"
  by (simp add: add_pheromone_def)

lemma reinforce_edges_mono:
  "0 \<le> v \<Longrightarrow> P a b \<le> reinforce_edges P v p ns a b"
proof (induction P v p ns rule: reinforce_edges.induct)
  case (3 P v p n s rest)
  have "P a b \<le> add_pheromone P (node_id p) (node_id n) v a b"
    using "3.prems" by (rule add_pheromone_mono)
  also have "\<dots> \<le> reinforce_edges (add_pheromone P (node_id p) (node_id n) v) v n (s # rest) a b"
    using "3.prems" by (rule "3.IH")
  finally show ?case by simp
qed simp_all

lemma reinforce_route_mono:
  assumes "0 \<le> v" and "reinforce_route P v nn r rt = Some P'"
  shows "P a b \<le> P' a b"
proof -
  from assms(2) obtain h c n rest where ns: "nodes rt = h # c # n # rest"
    by (auto simp: reinforce_route_def split: list.splits)
  let ?P1 = "add_pheromone P (nn + r) (node_id c) v"
  let ?P2 = "add_pheromone ?P1 (node_id (nodes rt ! (length (nodes rt) - 2))) (nn + r) v"
  from assms(2) ns have P': "P' = reinforce_edges ?P2 v c (n # rest)"
    by (simp add: reinforce_route_def Let_def)
  have "P a b \<le> ?P1 a b" using assms(1) by (rule add_pheromone_mono)
  also have "\<dots> \<le> ?P2 a b" using assms(1) by (rule add_pheromone_mono)
  also have "\<dots> \<le> P' a b" unfolding P' using assms(1) by (rule reinforce_edges_mono)
  finally show ?thesis .
qed

lemma reinforce_routes_mono:
  "0 \<le> v \<Longrightarrow> reinforce_routes rs sol v nn P idxs = Some P' \<Longrightarrow> P a b \<le> P' a b"
proof (induction idxs arbitrary: P)
  case Nil
  then show ?case by simp
next
  case (Cons r others)
  from Cons.prems(2) obtain ad rt P1 where
    step: "reinforce_route P v nn (int r) rt = Some P1"
    and rest: "reinforce_routes rs sol v nn P1 others = Some P'"
    by (auto split: if_splits option.splits)
  have "P a b \<le> P1 a b" using Cons.prems(1) step by (rule reinforce_route_mono)
  also have "\<dots> \<le> P' a b" using Cons.prems(1) rest by (rule Cons.IH)
  finally show ?case .
qed

lemma reinforce_route_total:
  "3 \<le> length (nodes rt) \<Longrightarrow> reinforce_route P v nn r rt \<noteq> None"
  by (auto simp: reinforce_route_def Let_def split: list.splits)

lemma reinforce_routes_total:
  assumes "\<forall>r \<in> set idxs. r < length (routes sol) \<and>
             (\<exists>a rt. routes sol ! r = Some a \<and> rs a = Some rt \<and> 3 \<le> length (nodes rt))"
  shows "reinforce_routes rs sol v nn P idxs \<noteq> None"
  using assms
proof (induction idxs arbitrary: P)
  case Nil
  then show ?case by simp
next
  case (Cons r others)
  then obtain a rt where r: "r < length (routes sol)" "routes sol ! r = Some a" "rs a = Some rt"
    "3 \<le> length (nodes rt)" by auto
  from reinforce_route_total [OF r(4)] obtain P1 where
    "reinforce_route P v nn (int r) rt = Some P1" by blast
  with r Cons show ?case by simp
qed

lemma routes_nonempty_slots:
  assumes "routes_nonempty rs sol" and "r \<in> set [0 ..< nat (trucks sol)]"
  shows "r < length (routes sol) \<and>
         (\<exists>a rt. routes sol ! r = Some a \<and> rs a = Some rt \<and> 3 \<le> length (nodes rt))"
proof -
  from assms have r: "r < nat (trucks sol)" "nat (trucks sol) \<le> length (routes sol)"
    by (simp_all add: routes_nonempty_def)
  then have "routes sol ! r \<in> set (take (nat (trucks sol)) (routes sol))"
    by (metis length_take min.absorb2 nth_mem nth_take)
  with assms(1) have "case routes sol ! r of None \<Rightarrow> False
      | Some a \<Rightarrow> (case rs a of None \<Rightarrow> False | Some rt \<Rightarrow> 3 \<le> length (nodes rt))"
    by (simp add: routes_nonempty_def list_all_iff)
  with r show ?thesis by (auto split: option.splits)
qed

lemma decay_pheromone_bound:
  "1 \<le> i \<Longrightarrow> i \<le> 2 * nn - 2 \<Longrightarrow> 1 \<le> j \<Longrightarrow> j \<le> 2 * nn - 2 \<Longrightarrow>
   minp \<le> decay_pheromone nn rh minp P i j"
  by (simp add: decay_pheromone_def)

text \<open>
  Claim C5.  If \<open>rho \<le> 1\<close>, then after \<open>update_pheromone\<close> every non-reserved cell of the
  pheromone matrix (row and column indices \<open>1 .. 2 * num_nodes - 2\<close>) is at least
  \<open>min_pheromone\<close>.  The call returns whenever every route of the solution has at least
  one customer; on a route without customers it dereferences a null pointer.
\<close>

theorem update_pheromone_lower_bound:
  assumes "rho (cfg pb) \<le> 1"
  shows "(\<forall>pb'. update_pheromone rs pb sol = Returns pb' \<longrightarrow>
            (\<forall>i j. 1 \<le> i \<and> i \<le> 2 * num_nodes pb - 2 \<and> 1 \<le> j \<and> j \<le> 2 * num_nodes pb - 2 \<longrightarrow>
               min_pheromone (cfg pb) \<le> pheromone pb' i j))
       \<and> (routes_nonempty rs sol \<longrightarrow> (\<exists>pb'. update_pheromone rs pb sol = Returns pb'))"
proof (intro conjI allI impI)
  fix pb' i j
  assume ret: "update_pheromone rs pb sol = Returns pb'"
    and rng: "1 \<le> i \<and> i \<le> 2 * num_nodes pb - 2 \<and> 1 \<le> j \<and> j \<le> 2 * num_nodes pb - 2"
  let ?P0 = "decay_pheromone (num_nodes pb) (rho (cfg pb)) (min_pheromone (cfg pb)) (pheromone pb)"
  from ret obtain P' where P': "reinforce_routes rs sol (1 - rho (cfg pb)) (num_nodes pb) ?P0
      [0 ..< nat (trucks sol)] = Some P'" and pb': "pheromone pb' = P'"
    by (auto simp: update_pheromone_def Let_def split: option.splits)
  have "min_pheromone (cfg pb) \<le> ?P0 i j"
    using rng by (intro decay_pheromone_bound) simp_all
  also have "\<dots> \<le> P' i j"
    using assms P' by (intro reinforce_routes_mono [where P = ?P0]) simp_all
  finally show "min_pheromone (cfg pb) \<le> pheromone pb' i j" using pb' by simp
next
  assume "routes_nonempty rs sol"
  then have "reinforce_routes rs sol (1 - rho (cfg pb)) (num_nodes pb)
      (decay_pheromone (num_nodes pb) (rho (cfg pb)) (min_pheromone (cfg pb)) (pheromone pb))
      [0 ..< nat (trucks sol)] \<noteq> None"
    by (intro reinforce_routes_total ballI routes_nonempty_slots)
  then show "\<exists>pb'. update_pheromone rs pb sol = Returns pb'"
    by (auto simp: update_pheromone_def Let_def)
qed

theorem update_pheromone_lower_bound_witness:
  "rho (cfg (ex_pb 1)) \<le> 1 \<and> routes_nonempty ex_store ex_sol \<and>
   (\<exists>pb'. update_pheromone ex_store (ex_pb 1) ex_sol = Returns pb' \<and>
      min_pheromone (cfg (ex_pb 1)) \<le> pheromone pb' 1 2 \<and>
      min_pheromone (cfg (ex_pb 1)) \<le> pheromone pb' 3 2)"
proof -
  have h: "rho (cfg (ex_pb 1)) \<le> 1" by (simp add: ex_pb_def)
  have ne: "routes_nonempty ex_store ex_sol"
    by (simp add: routes_nonempty_def ex_store_def ex_sol_def ex_route_def)
  have n: "num_nodes (ex_pb 1) = 3" by (simp add: ex_pb_def)
  from update_pheromone_lower_bound [OF h, of ex_store ex_sol] ne n h show ?thesis
    by auto
qed

subsection \<open>The hash of the solution cache\<close>

lemma unat_word_of_int_64:
  "0 \<le> k \<Longrightarrow> k < 2 ^ 64 \<Longrightarrow> unat (word_of_int k :: 64 word) = nat k"
  by (simp add: unat_eq_nat_uint uint_word_of_int)

lemma unat_max_64: "unat (- 1 :: 64 word) = 2 ^ 64 - 1"
  by (simp add: unsigned_minus_1_eq_mask mask_eq_exp_minus_1)

lemma Cache_factor:
  assumes "0 < num_nodes pb" and "num_nodes pb < 2 ^ 31"
  shows "\<exists>c. Cache pb = Some c \<and> m_cache c = (\<lambda>h. None) \<and>
             unat (m_factor c) = (2 ^ 64 - 1) div nat (num_nodes pb)"
proof -
  from assms(2) have "num_nodes pb < 2 ^ 64" by simp
  with assms(1) have u: "unat (word_of_int (num_nodes pb) :: 64 word) = nat (num_nodes pb)"
    by (intro unat_word_of_int_64) simp_all
  with assms(1) have "unat (word_of_int (num_nodes pb) :: 64 word) \<noteq> 0" by simp
  then have nz: "(word_of_int (num_nodes pb) :: 64 word) \<noteq> 0" by (metis unat_0)
  have "unat ((- 1) div (word_of_int (num_nodes pb) :: 64 word))
      = (2 ^ 64 - 1) div nat (num_nodes pb)"
    using u by (simp only: unat_div unat_max_64)
  with nz show ?thesis by (simp add: Cache_def)
qed

lemma round_half_even_bounds:
  "\<lfloor>q\<rfloor> \<le> round_half_even q \<and> round_half_even q \<le> \<lceil>q\<rceil>"
proof (cases "q = of_int \<lfloor>q\<rfloor>")
  case True
  then have "q - of_int \<lfloor>q\<rfloor> = 0" by simp
  then show ?thesis by (simp add: round_half_even_def Let_def)
next
  case False
  then have "\<lceil>q\<rceil> = \<lfloor>q\<rfloor> + 1" by (simp add: ceiling_altdef)
  then show ?thesis by (simp add: round_half_even_def Let_def)
qed

lemma round_half_even_of_int: "round_half_even (of_int k) = k"
  by (simp add: round_half_even_def)

lemma ld_exponent_bounds:
  assumes "0 < x"
  shows "2 powr (ld_exponent x) \<le> x \<and> x < 2 powr (ld_exponent x + 1)"
proof (cases "1 \<le> x")
  case True
  let ?n = "\<lfloor>x\<rfloor>"
  from True have n: "0 < ?n" by simp
  from bitlen_bounds [OF n] have lo: "2 ^ nat (bitlen ?n - 1) \<le> ?n" and hi: "?n < 2 ^ nat (bitlen ?n)"
    by simp_all
  from n have b: "1 \<le> bitlen ?n" by (simp add: bitlen_alt_def)
  have "2 powr (bitlen ?n - 1) = 2 ^ nat (bitlen ?n - 1)"
    using b by (simp add: powr_realpow [symmetric])
  also have "\<dots> \<le> real_of_int ?n" using lo by (metis of_int_le_iff of_int_numeral of_int_power)
  also have "\<dots> \<le> x" by simp
  finally have l: "2 powr (bitlen ?n - 1) \<le> x" .
  from hi have "?n + 1 \<le> 2 ^ nat (bitlen ?n)" by simp
  then have "real_of_int (?n + 1) \<le> 2 ^ nat (bitlen ?n)"
    by (metis of_int_le_iff of_int_numeral of_int_power)
  moreover have "x < real_of_int (?n + 1)" by simp
  ultimately have "x < 2 ^ nat (bitlen ?n)" by linarith
  also have "\<dots> = 2 powr (bitlen ?n)" using b by (simp add: powr_realpow [symmetric])
  finally have "x < 2 powr (bitlen ?n - 1 + 1)" by simp
  with l True show ?thesis by (simp add: ld_exponent_def)
next
  case False
  with assms have x1: "x < 1" by simp
  let ?y = "1 / x"
  let ?m = "\<lceil>?y\<rceil> - 1"
  from assms x1 have y1: "1 < ?y" by simp
  then have m: "0 < ?m" by simp
  have my: "real_of_int ?m < ?y" "?y \<le> real_of_int ?m + 1" by linarith+
  from bitlen_bounds [OF m] have lo: "2 ^ nat (bitlen ?m - 1) \<le> ?m" and hi: "?m < 2 ^ nat (bitlen ?m)"
    by simp_all
  from m have b: "1 \<le> bitlen ?m" by (simp add: bitlen_alt_def)
  from hi have "?m + 1 \<le> 2 ^ nat (bitlen ?m)" by simp
  then have "real_of_int (?m + 1) \<le> 2 ^ nat (bitlen ?m)"
    by (metis of_int_le_iff of_int_numeral of_int_power)
  then have "real_of_int \<lceil>?y\<rceil> \<le> 2 ^ nat (bitlen ?m)" by simp
  moreover have "?y \<le> real_of_int \<lceil>?y\<rceil>" by (rule le_of_int_ceiling)
  ultimately have "?y \<le> 2 ^ nat (bitlen ?m)" by (rule order_trans [rotated])
  also have "\<dots> = 2 powr (bitlen ?m)" using b by (simp add: powr_realpow [symmetric])
  finally have "1 / x \<le> 2 powr (bitlen ?m)" .
  then have "1 / (2 powr (bitlen ?m)) \<le> x"
    using assms by (simp add: field_simps)
  then have l: "2 powr (- bitlen ?m) \<le> x" by (simp add: powr_minus_divide)
  from lo have "real_of_int (2 ^ nat (bitlen ?m - 1)) \<le> real_of_int ?m" by (simp only: of_int_le_iff)
  then have "2 ^ nat (bitlen ?m - 1) \<le> real_of_int ?m" by simp
  with my(1) have "2 ^ nat (bitlen ?m - 1) < ?y" by linarith
  moreover have "(2::real) ^ nat (bitlen ?m - 1) = 2 powr (bitlen ?m - 1)"
    using b by (simp add: powr_realpow [symmetric])
  ultimately have "2 powr (bitlen ?m - 1) < 1 / x" by simp
  then have "x < 1 / 2 powr (bitlen ?m - 1)"
    using assms by (simp add: field_simps)
  moreover have "2 powr (- real_of_int (bitlen ?m - 1)) = 1 / 2 powr real_of_int (bitlen ?m - 1)"
    by (rule powr_minus_divide)
  ultimately have "x < 2 powr (- real_of_int (bitlen ?m - 1))" by (simp only:)
  moreover have "- real_of_int (bitlen ?m - 1) = real_of_int (- bitlen ?m + 1)" by simp
  ultimately have "x < 2 powr (real_of_int (- bitlen ?m + 1))" by (simp only:)
  with l x1 show ?thesis by (simp add: ld_exponent_def)
qed

lemma ld_ulp_pos: "0 < ld_ulp x"
  by (simp add: ld_ulp_def Let_def)

lemma ld_ulp_inverse:
  assumes "0 < x" and "x < 2 ^ 64"
  shows "1 / ld_ulp x = 2 ^ nat (63 - ld_exponent x)"
proof -
  have "x < 2 powr (real_of_int 64)" using assms(2) by simp
  with ld_exponent_bounds [OF assms(1)]
  have "2 powr (real_of_int (ld_exponent x)) < 2 powr (real_of_int 64)" by linarith
  from powr_less_cancel [OF this] have "real_of_int (ld_exponent x) < real_of_int 64" by simp
  then have "ld_exponent x < 64" by (simp only: of_int_less_iff)
  then show ?thesis by (auto simp: ld_ulp_def Let_def)
qed

lemma to_long_double_bounds:
  assumes "0 \<le> p" and "p < 2 ^ 64"
  shows "of_int \<lfloor>p\<rfloor> \<le> to_long_double p \<and> to_long_double p \<le> of_int \<lfloor>p\<rfloor> + 1"
proof (cases "p = 0")
  case True
  then show ?thesis by (simp add: to_long_double_def)
next
  case False
  with assms(1) have pos: "0 < p" by simp
  define u where "u = ld_ulp p"
  define M :: int where "M = 2 ^ nat (63 - ld_exponent p)"
  define N :: real where "N = of_int M"
  define q where "q = p / u"
  define k where "k = round_half_even q"
  have N: "0 < N" by (simp add: N_def M_def)
  have "1 / u = N" using ld_ulp_inverse [OF pos assms(2)] by (simp add: u_def N_def M_def)
  then have u: "u = 1 / N" by (metis div_by_1 divide_divide_eq_right mult_1)
  have q: "q = p * N" by (simp add: q_def u)
  have tl: "to_long_double p = real_of_int k / N"
    using pos by (simp add: to_long_double_def k_def q_def u_def [symmetric] u)
  have "real_of_int (\<lfloor>p\<rfloor> * M) \<le> q"
    unfolding q using N by (simp add: N_def mult_right_mono)
  then have "\<lfloor>p\<rfloor> * M \<le> \<lfloor>q\<rfloor>" by (simp only: le_floor_iff)
  with round_half_even_bounds [of q] have "\<lfloor>p\<rfloor> * M \<le> k" unfolding k_def by linarith
  then have "real_of_int (\<lfloor>p\<rfloor> * M) \<le> real_of_int k" by (simp only: of_int_le_iff)
  then have "real_of_int \<lfloor>p\<rfloor> * N \<le> real_of_int k" by (simp add: N_def)
  then have lo: "real_of_int \<lfloor>p\<rfloor> \<le> real_of_int k / N"
    using N by (simp add: pos_le_divide_eq)
  have "p \<le> real_of_int \<lfloor>p\<rfloor> + 1" by linarith
  then have "p * N \<le> (real_of_int \<lfloor>p\<rfloor> + 1) * N" using N by (simp add: mult_right_mono)
  then have "q \<le> real_of_int ((\<lfloor>p\<rfloor> + 1) * M)" by (simp add: q N_def)
  then have "\<lceil>q\<rceil> \<le> (\<lfloor>p\<rfloor> + 1) * M" by (simp only: ceiling_le_iff)
  with round_half_even_bounds [of q] have "k \<le> (\<lfloor>p\<rfloor> + 1) * M" unfolding k_def by linarith
  then have "real_of_int k \<le> real_of_int ((\<lfloor>p\<rfloor> + 1) * M)" by (simp only: of_int_le_iff)
  then have "real_of_int k \<le> (real_of_int \<lfloor>p\<rfloor> + 1) * N" by (simp add: N_def)
  then have hi: "real_of_int k / N \<le> real_of_int \<lfloor>p\<rfloor> + 1"
    using N by (simp add: pos_divide_le_eq)
  from lo hi tl show ?thesis by simp
qed

lemma to_unsigned_long_floor:
  assumes "0 \<le> v" and "v < 2 ^ 64"
  shows "\<exists>h. to_unsigned_long v = Some h \<and> int (unat h) = \<lfloor>v\<rfloor>"
proof -
  have f: "0 \<le> \<lfloor>v\<rfloor>" using assms(1) by simp
  have "\<lfloor>v\<rfloor> < 2 ^ 64" using assms(2) by (simp add: floor_less_iff)
  with f have "uint (word_of_int \<lfloor>v\<rfloor> :: 64 word) = \<lfloor>v\<rfloor>"
    by (simp add: uint_word_of_int)
  with assms show ?thesis by (simp add: to_unsigned_long_def)
qed

lemma Cache_hash_floor:
  assumes "0 \<le> cost_cache s"
    and "cost_cache s * real (unat (m_factor c)) < 2 ^ 64"
    and "to_long_double (cost_cache s * real (unat (m_factor c))) < 2 ^ 64"
  shows "\<exists>h. Cache_hash c s = Some h
       \<and> int (unat h) = \<lfloor>to_long_double (cost_cache s * real (unat (m_factor c)))\<rfloor>
       \<and> \<lfloor>cost_cache s * real (unat (m_factor c))\<rfloor> \<le> int (unat h)
       \<and> int (unat h) \<le> \<lfloor>cost_cache s * real (unat (m_factor c))\<rfloor> + 1"
proof -
  let ?p = "cost_cache s * real (unat (m_factor c))"
  have "0 \<le> real (unat (m_factor c))" by (rule of_nat_0_le_iff)
  with assms(1) have p0: "0 \<le> ?p" by (rule mult_nonneg_nonneg)
  from to_long_double_bounds [OF p0 assms(2)]
  have lo: "of_int \<lfloor>?p\<rfloor> \<le> to_long_double ?p" and hi: "to_long_double ?p \<le> of_int \<lfloor>?p\<rfloor> + 1"
    by simp_all
  from p0 have "0 \<le> real_of_int \<lfloor>?p\<rfloor>" by simp
  with lo have r0: "0 \<le> to_long_double ?p" by linarith
  from to_unsigned_long_floor [OF r0 assms(3)] obtain h where
    h: "to_unsigned_long (to_long_double ?p) = Some h" "int (unat h) = \<lfloor>to_long_double ?p\<rfloor>"
    by blast
  from lo have "\<lfloor>?p\<rfloor> \<le> \<lfloor>to_long_double ?p\<rfloor>" by (simp only: le_floor_iff)
  moreover from hi have "to_long_double ?p \<le> of_int (\<lfloor>?p\<rfloor> + 1)" by simp
  then have "\<lfloor>to_long_double ?p\<rfloor> \<le> \<lfloor>?p\<rfloor> + 1" by (metis floor_mono floor_of_int)
  ultimately show ?thesis using h by (simp add: Cache_hash_def)
qed

text \<open>
  Claim C8, as amended.  For a solution with \<open>0 \<le> cost_cache\<close> whose product
  \<open>cost_cache * factor\<close> is below \<open>2^64\<close>, also after rounding to \<open>long double\<close>, \<open>Cache::hash\<close>
  returns the integer part of the rounded product; that is \<open>floor(cost_cache * factor)\<close> or
  one more, and the floor itself when the product is a \<open>long double\<close>.  The factor is
  \<open>ULONG_MAX / num_nodes\<close> in integer division.  The hash depends on the cost only, so
  solutions of equal cost collide.  \<open>Cache::add\<close> sets the counter under the hash to 1;
  \<open>Cache::contains\<close> returns 0 and leaves the cache as it is when the hash is absent, and
  otherwise increments the counter and returns the incremented value.
\<close>

theorem cache_contract:
  assumes "0 \<le> cost_cache s"
    and "cost_cache s * real (unat (m_factor c)) < 2 ^ 64"
    and "to_long_double (cost_cache s * real (unat (m_factor c))) < 2 ^ 64"
  shows "\<exists>h. Cache_hash c s = Some h
       \<and> int (unat h) = \<lfloor>to_long_double (cost_cache s * real (unat (m_factor c)))\<rfloor>
       \<and> \<lfloor>cost_cache s * real (unat (m_factor c))\<rfloor> \<le> int (unat h)
       \<and> int (unat h) \<le> \<lfloor>cost_cache s * real (unat (m_factor c))\<rfloor> + 1
       \<and> (to_long_double (cost_cache s * real (unat (m_factor c)))
            = cost_cache s * real (unat (m_factor c)) \<longrightarrow>
          int (unat h) = \<lfloor>cost_cache s * real (unat (m_factor c))\<rfloor>)
       \<and> (0 < num_nodes pb \<and> num_nodes pb < 2 ^ 31 \<longrightarrow>
            (\<exists>c0. Cache pb = Some c0 \<and> m_cache c0 = (\<lambda>h. None) \<and>
                  unat (m_factor c0) = (2 ^ 64 - 1) div nat (num_nodes pb)))
       \<and> (cost_cache s' = cost_cache s \<longrightarrow> Cache_hash c s' = Some h)
       \<and> Cache_add c s = Some (c\<lparr>m_cache := (m_cache c)(h \<mapsto> 1)\<rparr>)
       \<and> (m_cache c h = None \<longrightarrow> Cache_contains c s = Some (0, c))
       \<and> (\<forall>v. m_cache c h = Some v \<longrightarrow>
            Cache_contains c s = Some (v + 1, c\<lparr>m_cache := (m_cache c)(h \<mapsto> v + 1)\<rparr>))"
proof -
  from Cache_hash_floor [OF assms] obtain h where h: "Cache_hash c s = Some h"
    and r: "int (unat h) = \<lfloor>to_long_double (cost_cache s * real (unat (m_factor c)))\<rfloor>"
    and b: "\<lfloor>cost_cache s * real (unat (m_factor c))\<rfloor> \<le> int (unat h)"
      "int (unat h) \<le> \<lfloor>cost_cache s * real (unat (m_factor c))\<rfloor> + 1"
    by blast
  have ex: "to_long_double (cost_cache s * real (unat (m_factor c)))
            = cost_cache s * real (unat (m_factor c)) \<longrightarrow>
          int (unat h) = \<lfloor>cost_cache s * real (unat (m_factor c))\<rfloor>"
    using r by simp
  have f: "0 < num_nodes pb \<and> num_nodes pb < 2 ^ 31 \<longrightarrow>
            (\<exists>c0. Cache pb = Some c0 \<and> m_cache c0 = (\<lambda>h. None) \<and>
                  unat (m_factor c0) = (2 ^ 64 - 1) div nat (num_nodes pb))"
    using Cache_factor [of pb] by blast
  have col: "cost_cache s' = cost_cache s \<longrightarrow> Cache_hash c s' = Some h"
    using h by (simp add: Cache_hash_def)
  have ad: "Cache_add c s = Some (c\<lparr>m_cache := (m_cache c)(h \<mapsto> 1)\<rparr>)"
    using h by (simp add: Cache_add_def)
  have c1: "m_cache c h = None \<longrightarrow> Cache_contains c s = Some (0, c)"
    using h by (simp add: Cache_contains_def)
  have c2: "\<forall>v. m_cache c h = Some v \<longrightarrow>
            Cache_contains c s = Some (v + 1, c\<lparr>m_cache := (m_cache c)(h \<mapsto> v + 1)\<rparr>)"
    using h by (simp add: Cache_contains_def)
  show ?thesis
    by (intro exI [of _ h] conjI) (fact h r b ex f col ad c1 c2)+
qed

text \<open>
  Claim C8 as stated, that the hash is \<open>floor(cost_cache * factor)\<close>, fails: for 101 nodes
  and a cost of 30.75 the product, 5616211685807610987.75, lies between \<open>2^62\<close> and \<open>2^63\<close>,
  where neighbouring \<open>long double\<close> numbers are 0.5 apart; it is rounded to
  5616211685807610988, one more than its floor.
\<close>

theorem cache_hash_exceeds_floor:
  "Cache ((ex_pb 1)\<lparr>num_nodes := 101\<rparr>) = Some ex_cache_101
   \<and> unat (m_factor ex_cache_101) = (2 ^ 64 - 1) div 101
   \<and> 0 \<le> cost_cache ex_sol_3075
   \<and> cost_cache ex_sol_3075 * real (unat (m_factor ex_cache_101)) < 2 ^ 64
   \<and> \<lfloor>cost_cache ex_sol_3075 * real (unat (m_factor ex_cache_101))\<rfloor> = 5616211685807610987
   \<and> Cache_hash ex_cache_101 ex_sol_3075 = Some 5616211685807610988"
proof -
  have f: "(- 1 :: 64 word) div 101 = 182641030432767837"
  proof -
    have "unat ((- 1 :: 64 word) div 101) = unat (182641030432767837 :: 64 word)"
      by (simp add: unat_div unat_max_64)
    then show ?thesis by (simp only: word_unat_eq_iff)
  qed
  have c: "Cache ((ex_pb 1)\<lparr>num_nodes := 101\<rparr>) = Some ex_cache_101"
    by (simp add: Cache_def ex_cache_101_def f)
  have u: "unat (m_factor ex_cache_101) = 182641030432767837"
    by (simp add: ex_cache_101_def)
  have s: "cost_cache ex_sol_3075 = 123 / 4" by (simp add: ex_sol_3075_def)
  have h: "to_unsigned_long (to_long_double ((123 / 4 :: real) * 182641030432767837))
      = Some 5616211685807610988"
    by code_simp
  have "Cache_hash ex_cache_101 ex_sol_3075 = Some 5616211685807610988"
    unfolding Cache_hash_def u s using h by simp
  with c show ?thesis unfolding u s by simp
qed

theorem cache_contract_witness:
  "Cache (ex_pb 1) = Some ex_cache
   \<and> Cache_hash ex_cache ex_sol = Some 7686143364045646506
   \<and> \<lfloor>cost_cache ex_sol * real (unat (m_factor ex_cache))\<rfloor> = 7686143364045646506
   \<and> Cache_hash ex_cache (ex_sol\<lparr>trucks := 2\<rparr>) = Some 7686143364045646506
   \<and> Cache_contains ex_cache ex_sol = Some (0, ex_cache)
   \<and> Cache_add ex_cache ex_sol
       = Some (ex_cache\<lparr>m_cache := (m_cache ex_cache)(7686143364045646506 \<mapsto> 1)\<rparr>)"
proof -
  let ?p = "cost_cache ex_sol * real (unat (m_factor ex_cache))"
  have u: "unat (m_factor ex_cache) = 6148914691236517205"
    by (simp add: ex_cache_def)
  have s: "cost_cache ex_sol = 5 / 4" by (simp add: ex_sol_def)
  have "to_long_double ((5 / 4 :: real) * 6148914691236517205) = 7686143364045646506"
    by code_simp
  then have r: "to_long_double ?p = 7686143364045646506"
    unfolding u s by simp
  have a1: "0 \<le> cost_cache ex_sol" unfolding s by simp
  have a2: "?p < 2 ^ 64" unfolding u s by simp
  have a3: "to_long_double ?p < 2 ^ 64" unfolding r by simp
  have n: "0 < num_nodes (ex_pb 1) \<and> num_nodes (ex_pb 1) < 2 ^ 31" by (simp add: ex_pb_def)
  have e: "cost_cache (ex_sol\<lparr>trucks := 2\<rparr>) = cost_cache ex_sol" by simp
  have none: "m_cache ex_cache g = None" for g by (simp add: ex_cache_def)
  from cache_contract [OF a1 a2 a3, of "ex_pb 1" "ex_sol\<lparr>trucks := 2\<rparr>"]
  obtain h where h: "Cache_hash ex_cache ex_sol = Some h"
    and hv: "int (unat h) = \<lfloor>to_long_double ?p\<rfloor>"
    and fc: "0 < num_nodes (ex_pb 1) \<and> num_nodes (ex_pb 1) < 2 ^ 31 \<longrightarrow>
          (\<exists>c0. Cache (ex_pb 1) = Some c0 \<and> m_cache c0 = (\<lambda>h. None) \<and>
                unat (m_factor c0) = (2 ^ 64 - 1) div nat (num_nodes (ex_pb 1)))"
    and col0: "cost_cache (ex_sol\<lparr>trucks := 2\<rparr>) = cost_cache ex_sol \<longrightarrow>
          Cache_hash ex_cache (ex_sol\<lparr>trucks := 2\<rparr>) = Some h"
    and ad: "Cache_add ex_cache ex_sol = Some (ex_cache\<lparr>m_cache := (m_cache ex_cache)(h \<mapsto> 1)\<rparr>)"
    and co0: "m_cache ex_cache h = None \<longrightarrow> Cache_contains ex_cache ex_sol = Some (0, ex_cache)"
    by (elim exE conjE)
  from fc n obtain c0 where c0: "Cache (ex_pb 1) = Some c0" "m_cache c0 = (\<lambda>h. None)"
      "unat (m_factor c0) = (2 ^ 64 - 1) div nat (num_nodes (ex_pb 1))"
    by blast
  from col0 e have col: "Cache_hash ex_cache (ex_sol\<lparr>trucks := 2\<rparr>) = Some h" by blast
  from co0 none [of h] have co: "Cache_contains ex_cache ex_sol = Some (0, ex_cache)"
    by (rule mp)
  from hv have "uint h = 7686143364045646506" unfolding r by simp
  then have "uint h = uint (7686143364045646506 :: 64 word)" by simp
  then have hn: "h = 7686143364045646506" by (simp only: word_uint_eq_iff)
  from c0(3) have "unat (m_factor c0) = unat (m_factor ex_cache)"
    unfolding u by (simp add: ex_pb_def)
  then have "m_factor c0 = m_factor ex_cache" by (simp only: word_unat_eq_iff)
  with c0(2) have "c0 = ex_cache" by (simp add: ex_cache_def)
  with c0(1) have c: "Cache (ex_pb 1) = Some ex_cache" by simp
  have fl: "\<lfloor>?p\<rfloor> = 7686143364045646506" unfolding u s by simp
  from c h col ad co fl show ?thesis unfolding hn by blast
qed

subsection \<open>Removing a route\<close>

declare shift_routes.simps [simp del]

lemma shift_routes_length [simp]: "length (shift_routes rts i n) = length rts"
proof (induction rts i n rule: shift_routes.induct)
  case (1 rts i n)
  then show ?case by (subst shift_routes.simps) simp
qed

lemma shift_routes_nth:
  "n < length rts \<Longrightarrow> k < length rts \<Longrightarrow>
   shift_routes rts i n ! k = (if i \<le> k \<and> k < n then rts ! Suc k else rts ! k)"
proof (induction rts i n arbitrary: k rule: shift_routes.induct)
  case (1 rts i n)
  show ?case
  proof (cases "i < n")
    case False
    then show ?thesis by (subst shift_routes.simps) auto
  next
    case True
    let ?r1 = "rts[i := rts ! Suc i]"
    have "shift_routes rts i n ! k = shift_routes ?r1 (Suc i) n ! k"
      using True by (subst shift_routes.simps) simp
    also have "\<dots> = (if Suc i \<le> k \<and> k < n then ?r1 ! Suc k else ?r1 ! k)"
      using "1.prems" by (intro "1.IH" [OF True]) simp_all
    also have "\<dots> = (if i \<le> k \<and> k < n then rts ! Suc k else rts ! k)"
      using True "1.prems" by (auto simp: nth_list_update)
    finally show ?thesis .
  qed
qed

lemma shift_routes_eq:
  assumes "i \<le> n" "n < length rts"
  shows "(shift_routes rts i n)[n := None] =
         take i rts @ drop (Suc i) (take (Suc n) rts) @ None # drop (Suc n) rts"
proof (rule nth_equalityI)
  show "length ((shift_routes rts i n)[n := None]) =
        length (take i rts @ drop (Suc i) (take (Suc n) rts) @ None # drop (Suc n) rts)"
    using assms by simp
next
  fix k assume "k < length ((shift_routes rts i n)[n := None])"
  then have k: "k < length rts" by simp
  consider "k < i" | "i \<le> k" "k < n" | "k = n" | "n < k" by linarith
  then show "(shift_routes rts i n)[n := None] ! k =
        (take i rts @ drop (Suc i) (take (Suc n) rts) @ None # drop (Suc n) rts) ! k"
  proof cases
    case 1
    with assms k show ?thesis by (simp add: nth_list_update shift_routes_nth nth_append)
  next
    case 2
    then have "k - i < n - i" "k - i < length rts - Suc i" using assms by linarith+
    with 2 assms k show ?thesis
      by (simp add: nth_list_update shift_routes_nth nth_append min_def)
  next
    case 3
    then have "\<not> k - i < min (length rts) (Suc n) - Suc i" using assms by linarith
    with 3 assms k show ?thesis
      by (simp add: nth_list_update nth_append)
  next
    case 4
    then have "\<not> k - i < min (length rts) (Suc n) - Suc i"
      "k - i - (min (length rts) (Suc n) - Suc i) = Suc (k - Suc n)"
      "Suc n + (k - Suc n) = k" "\<not> k < n" "k \<noteq> n" using assms k by linarith+
    with assms k show ?thesis
      by (simp add: nth_list_update shift_routes_nth nth_append)
  qed
qed

text \<open>
  Claim C9, as amended.  For a route \<open>i\<close> in use: if its \<open>len\<close> is not 2, \<open>remove_route\<close> is a
  fatal error that terminates the program with store and solution unchanged; if its \<open>len\<close>
  is 2, \<open>remove_route\<close> frees the route, decrements \<open>trucks\<close>, moves the routes at the indices
  above \<open>i\<close> down by one slot in their order and clears the vacated last slot.  Among the
  functions that assign \<open>sol->trucks\<close> of an existing solution, only \<open>remove_route\<close> and
  \<open>reset_solution\<close> (which sets it to 0) reduce the number of trucks.
\<close>

theorem remove_route_contract:
  assumes "route_idx < nat (trucks sol)" and "nat (trucks sol) \<le> length (routes sol)"
    and "routes sol ! route_idx = Some a" and "rs a = Some rt"
  shows "(len rt \<noteq> 2 \<longrightarrow>
            remove_route rs sol route_idx =
              Exits ''remove_route tried to remove non-empty route'' (rs, sol))
       \<and> (len rt = 2 \<longrightarrow>
            remove_route rs sol route_idx =
              Returns (rs(a := None),
                sol\<lparr>trucks := trucks sol - 1,
                    routes := take route_idx (routes sol)
                      @ drop (Suc route_idx) (take (nat (trucks sol)) (routes sol))
                      @ None # drop (nat (trucks sol)) (routes sol)\<rparr>))
       \<and> (\<forall>w st st'. run_writer pb w st = Returns st' \<and> trucks (snd st') < trucks (snd st) \<longrightarrow>
            (\<exists>i. w = Remove_route i) \<or> (\<exists>nn. w = Reset_solution nn))"
proof (intro conjI impI allI)
  assume "len rt \<noteq> 2"
  with assms show "remove_route rs sol route_idx =
      Exits ''remove_route tried to remove non-empty route'' (rs, sol)"
    by (simp add: remove_route_def EMPTY_def)
next
  assume e: "len rt = 2"
  from assms(1) have t: "Suc (nat (trucks sol - 1)) = nat (trucks sol)"
    "route_idx \<le> nat (trucks sol - 1)" by simp_all
  from assms(1,2) have "nat (trucks sol - 1) < length (routes sol)" by simp
  from shift_routes_eq [OF t(2) this] t(1)
  have "(shift_routes (routes sol) route_idx (nat (trucks sol - 1)))[nat (trucks sol - 1) := None]
      = take route_idx (routes sol)
        @ drop (Suc route_idx) (take (nat (trucks sol)) (routes sol))
        @ None # drop (nat (trucks sol)) (routes sol)" by simp
  with assms e show "remove_route rs sol route_idx =
      Returns (rs(a := None),
        sol\<lparr>trucks := trucks sol - 1,
            routes := take route_idx (routes sol)
              @ drop (Suc route_idx) (take (nat (trucks sol)) (routes sol))
              @ None # drop (nat (trucks sol)) (routes sol)\<rparr>)"
    by (simp add: remove_route_def EMPTY_def free_route_def Let_def)
next
  fix w st st'
  assume a: "run_writer pb w st = Returns st' \<and> trucks (snd st') < trucks (snd st)"
  obtain rs0 sol0 where st: "st = (rs0, sol0)" by force
  show "(\<exists>i. w = Remove_route i) \<or> (\<exists>nn. w = Reset_solution nn)"
  proof (cases w)
    case (New_route ad seed wk)
    with a st have False
      by (auto simp: new_route_def Let_def split: if_splits outcome.splits)
    then show ?thesis ..
  qed auto
qed

text \<open>
  Claim C9 as stated, that \<open>remove_route\<close> is the only operation reducing the number of
  trucks, fails: \<open>reset_solution\<close> takes the example solution from one truck to none.
\<close>

theorem reset_solution_reduces_trucks:
  "reset_solution ex_store ex_sol 3 =
     Returns (ex_store(10 := None),
       ex_sol\<lparr>routes := [None, None], unrouted := [ex_node 2 10 0 100 5 11, ex_k],
              num_unrouted := 2, trucks := 0, workers_cache := 0, dist_cache := 0,
              sol_time := 0, saturation_time := 0\<rparr>)
   \<and> trucks ex_sol = 1"
  by (simp add: reset_solution_def ex_store_def ex_sol_def ex_route_def EMPTY_def free_route_def
        Let_def fun_eq_iff)

theorem remove_route_contract_witness:
  "remove_route ex_store2 ex_sol2 0 =
     Returns (ex_store2(20 := None), ex_sol2\<lparr>trucks := 1, routes := [Some 21, None, None]\<rparr>)
   \<and> remove_route ex_store2 ex_sol2 1 =
     Exits ''remove_route tried to remove non-empty route'' (ex_store2, ex_sol2)"
proof -
  have s: "nat (trucks ex_sol2) \<le> length (routes ex_sol2)" "(0::nat) < nat (trucks ex_sol2)"
    "1 < nat (trucks ex_sol2)"
    "routes ex_sol2 ! 0 = Some 20" "routes ex_sol2 ! 1 = Some 21"
    "ex_store2 20 = Some ex_empty_route" "ex_store2 21 = Some (ex_route_of 1 ex_k)"
    by (simp_all add: ex_sol2_def ex_store2_def)
  have l: "len ex_empty_route = 2" "len (ex_route_of 1 ex_k) \<noteq> 2"
    by (simp_all add: ex_empty_route_def ex_route_of_def)
  from remove_route_contract [where route_idx = 0 and sol = ex_sol2 and a = 20
      and rs = ex_store2 and rt = ex_empty_route and pb = "ex_pb 1", OF s(2) s(1) s(4) s(6)] l(1)
  have a: "remove_route ex_store2 ex_sol2 0 =
     Returns (ex_store2(20 := None), ex_sol2\<lparr>trucks := 1, routes := [Some 21, None, None]\<rparr>)"
    by (simp add: ex_sol2_def)
  from remove_route_contract [where route_idx = 1 and sol = ex_sol2 and a = 21
      and rs = ex_store2 and rt = "ex_route_of 1 ex_k" and pb = "ex_pb 1", OF s(3) s(1) s(5) s(7)] l(2)
  have b: "remove_route ex_store2 ex_sol2 1 =
     Exits ''remove_route tried to remove non-empty route'' (ex_store2, ex_sol2)"
    by blast
  from a b show ?thesis by blast
qed

subsection \<open>Moves that empty their source route\<close>

lemma same_shape_refl [simp]: "same_shape r r"
  by (simp add: same_shape_def)

lemma same_shape_trans: "same_shape a b \<Longrightarrow> same_shape b c \<Longrightarrow> same_shape a c"
  by (simp add: same_shape_def)

lemma can_insert_run_length: "length (snd (can_insert_run c t p run)) = length run"
  by (induction run arbitrary: t p) (simp_all add: Let_def split_beta)

lemma can_insert_length: "length (snd (can_insert pb tgt run aft)) = length run"
  using can_insert_run_length [of "c_m pb (workers tgt)" "aest (nodes tgt ! aft)"
      "node_id (nodes tgt ! aft)" run]
  by (auto simp: can_insert_def Let_def split: prod.splits)

lemma same_shape_probe:
  assumes "f \<le> Suc l" and "Suc l \<le> length (nodes src)"
    and "length run' = length (take (Suc l - f) (drop f (nodes src)))"
  shows "same_shape src (src\<lparr>nodes := take f (nodes src) @ run' @ drop (Suc l) (nodes src)\<rparr>)"
proof -
  from assms have "length (take f (nodes src) @ run' @ drop (Suc l) (nodes src))
      = length (nodes src)"
    by simp
  then show ?thesis by (simp add: same_shape_def)
qed

lemma delta_is_higher_trans:
  assumes "delta_is_higher m dt dw dd \<noteq> 0"
    and "delta_trucks c = dt" and "delta_workers c = dw" and "delta_dist c = dd"
    and "delta_is_higher c dt dw dd2 \<noteq> 0"
  shows "delta_is_higher m dt dw dd2 \<noteq> 0"
  using assms by (auto simp: delta_is_higher_def MIN_DELTA_def split: if_splits)

lemma stored_candidate_trans:
  assumes "stored_candidate sp tp dt dw f l afts m c"
    and "stored_candidate sp tp dt dw f2 l2 afts2 c m'"
  shows "stored_candidate sp tp dt dw f2 l2 afts2 m m'"
proof -
  from assms have "delta_is_higher m dt dw (delta_dist c) \<noteq> 0"
    and "delta_trucks c = dt" and "delta_workers c = dw"
    and "delta_is_higher c dt dw (delta_dist m') \<noteq> 0"
    by (simp_all add: stored_candidate_def)
  then have "delta_is_higher m dt dw (delta_dist m') \<noteq> 0"
    by (rule delta_is_higher_trans [OF _ _ _ refl])
  with assms(2) show ?thesis by (simp add: stored_candidate_def)
qed

lemma update_move_after_inv:
  assumes "update_move_after pb tb sp tp tgt dt dw f l afts (u, m, src) = (ret, u', m', src')"
    and "f \<le> Suc l" and "Suc l \<le> length (nodes src)"
  shows "same_shape src src' \<and>
         ((u' = u \<and> m' = m) \<or> (u' = 1 \<and> stored_candidate sp tp dt dw f l afts m m'))"
  using assms
proof (induction afts arbitrary: u m src)
  case Nil
  then show ?case by simp
next
  case (Cons aft afts)
  let ?dd = "calc_delta_dist_move (c_m pb 0) src f l tgt aft"
  let ?run = "take (Suc l - f) (drop f (nodes src))"
  let ?run' = "snd (can_insert pb tgt ?run aft)"
  let ?ok = "fst (can_insert pb tgt ?run aft)"
  let ?src' = "src\<lparr>nodes := take f (nodes src) @ ?run' @ drop (Suc l) (nodes src)\<rparr>"
  let ?cand = "\<lparr>source = Some sp, target = Some tp, first_n = Some f, last_n = Some l,
     after = Some aft, delta_trucks = dt, delta_workers = dw, delta_dist = ?dd,
     improving = improving m\<rparr>"
  have sh: "same_shape src ?src'"
    using Cons.prems(2,3) by (intro same_shape_probe) (simp_all add: can_insert_length)
  have len': "Suc l \<le> length (nodes ?src')"
    using sh Cons.prems(3) by (simp add: same_shape_def)
  have weaken: "stored_candidate sp tp dt dw f l (aft # afts) i x"
    if "stored_candidate sp tp dt dw f l afts i x" for i x
    using that by (simp add: stored_candidate_def)
  show ?case
  proof (cases "delta_is_higher m dt dw ?dd \<noteq> 0")
    case False
    with Cons.prems(1)
    have "update_move_after pb tb sp tp tgt dt dw f l afts (u, m, src) = (ret, u', m', src')"
      by (simp add: Let_def)
    from Cons.IH [OF this Cons.prems(2,3)] weaken show ?thesis by blast
  next
    case hi: True
    have cand: "stored_candidate sp tp dt dw f l (aft # afts) m ?cand"
      using hi by (auto simp: stored_candidate_def)
    show ?thesis
    proof (cases "?ok \<and> is_move_tabu tb ?src' tgt ?cand = 0")
      case False
      with hi Cons.prems(1)
      have "update_move_after pb tb sp tp tgt dt dw f l afts (u, m, ?src') = (ret, u', m', src')"
        by (auto simp: Let_def split: prod.splits if_splits)
      from Cons.IH [OF this Cons.prems(2) len'] weaken sh show ?thesis
        by (blast intro: same_shape_trans)
    next
      case acc: True
      show ?thesis
      proof (cases "best_moves (cfg pb)")
        case False
        with hi acc Cons.prems(1) have "u' = 1" "m' = ?cand" "src' = ?src'"
          by (auto simp: Let_def split: prod.splits if_splits)
        with cand sh show ?thesis by simp
      next
        case True
        with hi acc Cons.prems(1)
        have r: "update_move_after pb tb sp tp tgt dt dw f l afts (1, ?cand, ?src')
            = (ret, u', m', src')"
          by (auto simp: Let_def split: prod.splits if_splits)
        from Cons.IH [OF r Cons.prems(2) len']
        have sh': "same_shape ?src' src'"
          and alt: "(u' = 1 \<and> m' = ?cand) \<or>
                    (u' = 1 \<and> stored_candidate sp tp dt dw f l afts ?cand m')"
          by simp_all
        from alt have "u' = 1 \<and> stored_candidate sp tp dt dw f l (aft # afts) m m'"
        proof
          assume "u' = 1 \<and> m' = ?cand"
          with cand show ?thesis by simp
        next
          assume a: "u' = 1 \<and> stored_candidate sp tp dt dw f l afts ?cand m'"
          then have "stored_candidate sp tp dt dw f l (aft # afts) ?cand m'" by (simp add: weaken)
          with cand have "stored_candidate sp tp dt dw f l (aft # afts) m m'"
            by (rule stored_candidate_trans)
          with a show ?thesis by simp
        qed
        with sh sh' show ?thesis
          by (blast intro: same_shape_trans)
      qed
    qed
  qed
qed


lemma update_move_first_inv:
  assumes "update_move_first pb tb sp tp tgt state dt dw0 count fs (u, m, src) = (ret, u', m', src')"
    and "\<not> (state \<ge> REDUCE_WORKERS \<and> \<not> (dt \<noteq> 0))"
    and "1 \<le> count" and "\<forall>f \<in> set fs. f + count \<le> length (nodes src)"
  shows "same_shape src src' \<and>
         ((u' = u \<and> m' = m) \<or>
          (u' = 1 \<and> (\<exists>f \<in> set fs. stored_candidate sp tp dt dw0 f (f + count - 1)
                                  [0 ..< length (nodes tgt) - 1] m m')))"
  using assms(1,4)
proof (induction fs arbitrary: u m src)
  case Nil
  then show ?case by simp
next
  case (Cons f fs)
  let ?l = "f + count - 1"
  have fl: "f \<le> Suc ?l" "Suc ?l \<le> length (nodes src)"
    using assms(3) Cons.prems(2) by simp_all
  show ?case
  proof (cases "real (capacity pb) < load tgt + sum_demands (take count (drop f (nodes src)))")
    case True
    with Cons.prems(1)
    have "update_move_first pb tb sp tp tgt state dt dw0 count fs (u, m, src) = (ret, u', m', src')"
      by (simp add: Let_def)
    from Cons.IH [OF this] Cons.prems(2) show ?thesis by auto
  next
    case False
    obtain r1 u1 m1 src1 where inner:
      "update_move_after pb tb sp tp tgt dt dw0 f ?l [0 ..< length (nodes tgt) - 1] (u, m, src)
        = (r1, u1, m1, src1)"
      by (metis prod_cases4)
    from update_move_after_inv [OF inner fl]
    have sh1: "same_shape src src1"
      and c1: "(u1 = u \<and> m1 = m) \<or>
        (u1 = 1 \<and> stored_candidate sp tp dt dw0 f ?l [0 ..< length (nodes tgt) - 1] m m1)"
      by simp_all
    show ?thesis
    proof (cases r1)
      case True
      with False inner Cons.prems(1) assms(2) have "u' = u1" "m' = m1" "src' = src1"
        by (auto simp: Let_def)
      with sh1 c1 show ?thesis by auto
    next
      case nr: False
      with False inner Cons.prems(1) assms(2)
      have rec: "update_move_first pb tb sp tp tgt state dt dw0 count fs (u1, m1, src1)
          = (ret, u', m', src')"
        by (auto simp: Let_def)
      have "\<forall>f \<in> set fs. f + count \<le> length (nodes src1)"
        using Cons.prems(2) sh1 by (simp add: same_shape_def)
      from Cons.IH [OF rec this]
      have sh2: "same_shape src1 src'"
        and c2: "(u' = u1 \<and> m' = m1) \<or>
          (u' = 1 \<and> (\<exists>f \<in> set fs. stored_candidate sp tp dt dw0 f (f + count - 1)
                                  [0 ..< length (nodes tgt) - 1] m1 m'))"
        by simp_all
      from sh1 sh2 have sh: "same_shape src src'" by (rule same_shape_trans)
      from c1 show ?thesis
      proof
        assume "u1 = u \<and> m1 = m"
        with c2 sh show ?thesis by auto
      next
        assume a1: "u1 = 1 \<and> stored_candidate sp tp dt dw0 f ?l [0 ..< length (nodes tgt) - 1] m m1"
        from c2 show ?thesis
        proof
          assume "u' = u1 \<and> m' = m1"
          with a1 sh show ?thesis by auto
        next
          assume "u' = 1 \<and> (\<exists>f \<in> set fs. stored_candidate sp tp dt dw0 f (f + count - 1)
                                  [0 ..< length (nodes tgt) - 1] m1 m')"
          then obtain g where g: "g \<in> set fs" and u': "u' = 1"
            and sg: "stored_candidate sp tp dt dw0 g (g + count - 1)
                       [0 ..< length (nodes tgt) - 1] m1 m'"
            by blast
          from a1 sg have "stored_candidate sp tp dt dw0 g (g + count - 1)
                       [0 ..< length (nodes tgt) - 1] m m'"
            by (blast intro: stored_candidate_trans)
          with g u' sh show ?thesis by auto
        qed
      qed
    qed
  qed
qed

lemma update_move_fixed_deltas:
  assumes um: "update_move pb tb m sp src tp tgt state len' = (u, m', src')"
    and "u \<noteq> 0" and "1 \<le> len'"
    and "len src = EMPTY + len' \<or> state < REDUCE_WORKERS"
  shows "same_shape src src' \<and>
         (\<exists>f. 1 \<le> f \<and> f + nat len' < length (nodes src) \<and>
              stored_candidate sp tp (if len src = EMPTY + len' then 1 else 0)
                (if len src = EMPTY + len' then workers src else 0)
                f (f + nat len' - 1) [0 ..< length (nodes tgt) - 1] m m')"
proof -
  let ?dt = "if len src = EMPTY + len' then 1 else 0 :: int"
  let ?dw = "if ?dt \<noteq> 0 then workers src else 0"
  let ?fs = "[1 ..< length (nodes src) - nat len']"
  obtain ret where outer:
    "update_move_first pb tb sp tp tgt state ?dt ?dw (nat len') ?fs (0, m, src)
       = (ret, u, m', src')"
    using um assms(2)
    by (auto simp: update_move_def Let_def split: if_splits) (metis prod.collapse)+
  have k: "\<not> (state \<ge> REDUCE_WORKERS \<and> \<not> (?dt \<noteq> 0))"
    using assms(4) by auto
  have c: "1 \<le> nat len'" using assms(3) by simp
  have fs: "\<forall>f \<in> set ?fs. f + nat len' \<le> length (nodes src)" by auto
  from update_move_first_inv [OF outer k c fs] assms(2)
  have sh: "same_shape src src'"
    and "\<exists>f \<in> set ?fs. stored_candidate sp tp ?dt ?dw f (f + nat len' - 1)
           [0 ..< length (nodes tgt) - 1] m m'"
    by auto
  then obtain f where f: "f \<in> set ?fs"
    and sc: "stored_candidate sp tp ?dt ?dw f (f + nat len' - 1)
           [0 ..< length (nodes tgt) - 1] m m'" by blast
  from f have "1 \<le> f" "f + nat len' < length (nodes src)" by auto
  moreover from sc have "stored_candidate sp tp (if len src = EMPTY + len' then 1 else 0)
                (if len src = EMPTY + len' then workers src else 0)
                f (f + nat len' - 1) [0 ..< length (nodes tgt) - 1] m m'"
    by (simp split: if_splits)
  ultimately show ?thesis using sh by blast
qed

lemma remove_route_empty:
  assumes "route_idx < nat (trucks sol)" and "nat (trucks sol) \<le> length (routes sol)"
    and "routes sol ! route_idx = Some a" and "rs a = Some rt" and "len rt = EMPTY"
  shows "remove_route rs sol route_idx =
      Returns (rs(a := None),
        sol\<lparr>trucks := trucks sol - 1,
            routes := take route_idx (routes sol)
              @ drop (Suc route_idx) (take (nat (trucks sol)) (routes sol))
              @ None # drop (nat (trucks sol)) (routes sol)\<rparr>)"
proof -
  from assms(1) have t: "Suc (nat (trucks sol - 1)) = nat (trucks sol)"
    "route_idx \<le> nat (trucks sol - 1)" by simp_all
  from assms(1,2) have "nat (trucks sol - 1) < length (routes sol)" by simp
  from shift_routes_eq [OF t(2) this] t(1)
  have "(shift_routes (routes sol) route_idx (nat (trucks sol - 1)))[nat (trucks sol - 1) := None]
      = take route_idx (routes sol)
        @ drop (Suc route_idx) (take (nat (trucks sol)) (routes sol))
        @ None # drop (nat (trucks sol)) (routes sol)" by simp
  with assms show ?thesis
    by (simp add: remove_route_def free_route_def Let_def)
qed

lemma get_route_index_from_finds:
  assumes "\<forall>i \<in> set pre. i < length (routes sol) \<and>
            (\<exists>a r. routes sol ! i = Some a \<and> rs a = Some r \<and> route_id r \<noteq> rid)"
    and "i0 < length (routes sol)" and "routes sol ! i0 = Some a" and "rs a = Some r"
    and "route_id r = rid"
  shows "get_route_index_from rs sol rid (pre @ i0 # post) = Returns (Some i0)"
  using assms by (induction pre) auto

lemma slots_valid_nth:
  assumes "slots_valid rs sol" and "i < nat (trucks sol)"
  shows "i < length (routes sol) \<and> (\<exists>a r. routes sol ! i = Some a \<and> rs a = Some r)"
proof -
  from assms have l: "i < length (routes sol)" by (simp add: slots_valid_def)
  from assms have "list_all (\<lambda>slot. case slot of None \<Rightarrow> False | Some a \<Rightarrow> rs a \<noteq> None)
        (take (nat (trucks sol)) (routes sol))" by (simp add: slots_valid_def)
  with assms(2) l
  have "case routes sol ! i of None \<Rightarrow> False | Some a \<Rightarrow> rs a \<noteq> None"
    by (simp add: list_all_length)
  with l show ?thesis by (auto split: option.splits)
qed

lemma slots_valid_distinct:
  assumes "slots_valid rs sol" and "i < nat (trucks sol)" and "j < nat (trucks sol)"
    and "routes sol ! i = routes sol ! j"
  shows "i = j"
proof -
  let ?xs = "take (nat (trucks sol)) (routes sol)"
  from assms(1) have d: "distinct ?xs" and n: "nat (trucks sol) \<le> length (routes sol)"
    by (simp_all add: slots_valid_def)
  from assms(2,3) n have li: "i < length ?xs" and lj: "j < length ?xs" by simp_all
  from d li lj have "(?xs ! i = ?xs ! j) = (i = j)" by (rule nth_eq_iff_index_eq)
  moreover from assms(2,3,4) have "?xs ! i = ?xs ! j" by simp
  ultimately show ?thesis by blast
qed

lemma get_route_index_source:
  assumes sv: "slots_valid rs sol" and iu: "id_unique rs sol sp rid"
    and i0: "i0 < nat (trucks sol)" and at: "routes sol ! i0 = Some sp"
    and r1: "route_id r1 = rid"
  shows "get_route_index (rs(sp \<mapsto> r1)) sol rid = Returns (Some i0)"
proof -
  let ?n = "nat (trucks sol)"
  have "[0 ..< i0 + (?n - i0)] = [0 ..< i0] @ [i0 ..< i0 + (?n - i0)]"
    by (rule upt_add_eq_append) simp
  moreover have "i0 + (?n - i0) = ?n" using i0 by simp
  ultimately have "[0 ..< ?n] = [0 ..< i0] @ [i0 ..< ?n]" by simp
  moreover have "[i0 ..< ?n] = i0 # [Suc i0 ..< ?n]" using i0 by (simp add: upt_conv_Cons)
  ultimately have split: "[0 ..< ?n] = [0 ..< i0] @ i0 # [Suc i0 ..< ?n]" by simp
  have pre: "\<forall>i \<in> set [0 ..< i0]. i < length (routes sol) \<and>
      (\<exists>a r. routes sol ! i = Some a \<and> (rs(sp \<mapsto> r1)) a = Some r \<and> route_id r \<noteq> rid)"
  proof
    fix i assume "i \<in> set [0 ..< i0]"
    then have i: "i < i0" by simp
    with i0 have il: "i < ?n" by simp
    from slots_valid_nth [OF sv il] obtain a r where
      l: "i < length (routes sol)" and a: "routes sol ! i = Some a" and r: "rs a = Some r"
      by blast
    have "a \<noteq> sp"
    proof
      assume "a = sp"
      with a at have "routes sol ! i = routes sol ! i0" by simp
      from slots_valid_distinct [OF sv il i0 this] i show False by simp
    qed
    moreover from iu il l
    have "case routes sol ! i of None \<Rightarrow> True
          | Some a \<Rightarrow> a = sp \<or> (case rs a of None \<Rightarrow> True | Some r \<Rightarrow> route_id r \<noteq> rid)"
      using sv by (simp add: id_unique_def list_all_length slots_valid_def)
    ultimately have "route_id r \<noteq> rid" using a r by simp
    with l a r \<open>a \<noteq> sp\<close>
    show "i < length (routes sol) \<and>
      (\<exists>a r. routes sol ! i = Some a \<and> (rs(sp \<mapsto> r1)) a = Some r \<and> route_id r \<noteq> rid)"
      by simp
  qed
  from slots_valid_nth [OF sv i0] have "i0 < length (routes sol)" by simp
  then have "get_route_index_from (rs(sp \<mapsto> r1)) sol rid ([0 ..< i0] @ i0 # [Suc i0 ..< ?n])
      = Returns (Some i0)"
    by (rule get_route_index_from_finds [OF pre _ at _ r1]) simp
  then show ?thesis by (simp only: get_route_index_def split)
qed

lemma perform_truck_move:
  assumes m: "source m = Some sp" "target m = Some tp" "first_n m = Some f" "last_n m = Some l"
      "after m = Some aft" "delta_trucks m \<noteq> 0"
    and st: "rs sp = Some src" "rs tp = Some tgt" "sp \<noteq> tp"
    and e: "len src = EMPTY + int (length (move_run src m))"
    and sv: "slots_valid rs sol" and iu: "id_unique rs sol sp (route_id src)"
    and i0: "i0 < nat (trucks sol)" and at: "routes sol ! i0 = Some sp"
  shows "perform_move pb rs sol tb m =
     Returns ((rs(sp := None))(tp \<mapsto> add_nodes pb tgt (move_run src m) aft),
       sol\<lparr>trucks := trucks sol - 1,
           routes := take i0 (routes sol)
             @ drop (Suc i0) (take (nat (trucks sol)) (routes sol))
             @ None # drop (nat (trucks sol)) (routes sol)\<rparr>,
       update_tabulist_move tb src m, init_move (improving m))"
proof -
  let ?r1 = "remove_nodes_noupdate src f l"
  let ?rs1 = "rs(sp \<mapsto> ?r1)"
  have id1: "route_id ?r1 = route_id src" by (simp add: remove_nodes_noupdate_def Let_def)
  have len1: "len ?r1 = EMPTY"
    using e m(3,4) by (simp add: remove_nodes_noupdate_def Let_def move_run_def)
  have gi: "get_route_index ?rs1 sol (route_id src) = Returns (Some i0)"
    by (rule get_route_index_source [OF sv iu i0 at id1])
  from sv have n: "nat (trucks sol) \<le> length (routes sol)" by (simp add: slots_valid_def)
  have rr: "remove_route ?rs1 sol i0 =
      Returns (?rs1(sp := None),
        sol\<lparr>trucks := trucks sol - 1,
            routes := take i0 (routes sol)
              @ drop (Suc i0) (take (nat (trucks sol)) (routes sol))
              @ None # drop (nat (trucks sol)) (routes sol)\<rparr>)"
    by (rule remove_route_empty [OF i0 n at _ len1]) simp
  show ?thesis
    using m st gi rr by (simp add: perform_move_def finish_move_def Let_def)
qed

lemma slots_workers_append:
  "slots_workers rs (xs @ ys) =
     (case slots_workers rs xs of
        None \<Rightarrow> None
      | Some a \<Rightarrow> map_option (\<lambda>b. a + b) (slots_workers rs ys))"
proof (induction xs)
  case Nil
  show ?case by (cases "slots_workers rs ys") simp_all
next
  case (Cons x xs)
  then show ?case
    by (cases x; cases "slots_workers rs xs"; cases "slots_workers rs ys")
      (auto split: option.splits)
qed

lemma slots_workers_cong:
  "(\<And>a. Some a \<in> set xs \<Longrightarrow> map_option workers (rs' a) = map_option workers (rs a))
   \<Longrightarrow> slots_workers rs' xs = slots_workers rs xs"
proof (induction xs)
  case Nil
  then show ?case by simp
next
  case (Cons x xs)
  show ?case
  proof (cases x)
    case None
    then show ?thesis by simp
  next
    case (Some a)
    with Cons.prems have "map_option workers (rs' a) = map_option workers (rs a)" by simp
    moreover have "slots_workers rs' xs = slots_workers rs xs"
      using Cons.prems by (intro Cons.IH) simp
    ultimately show ?thesis using Some by (auto split: option.splits)
  qed
qed

lemma slots_workers_total:
  "list_all (\<lambda>slot. case slot of None \<Rightarrow> False | Some a \<Rightarrow> rs a \<noteq> None) xs
   \<Longrightarrow> \<exists>w. slots_workers rs xs = Some w"
proof (induction xs)
  case Nil
  then show ?case by simp
next
  case (Cons x xs)
  then show ?case by (cases x) auto
qed

lemma calc_workers_from_slots:
  "\<forall>i \<in> set idxs. i < length (routes sol) \<Longrightarrow>
   calc_workers_from rs sol w idxs =
     map_option (\<lambda>s. w + s) (slots_workers rs (map (\<lambda>i. routes sol ! i) idxs))"
proof (induction idxs arbitrary: w)
  case Nil
  then show ?case by simp
next
  case (Cons i idxs)
  then have il: "i < length (routes sol)" and rest: "\<forall>i \<in> set idxs. i < length (routes sol)"
    by simp_all
  show ?case
  proof (cases "routes sol ! i")
    case None
    then show ?thesis using il by simp
  next
    case slot: (Some a)
    show ?thesis
    proof (cases "rs a")
      case None
      with slot il show ?thesis by simp
    next
      case (Some r)
      with slot il Cons.IH [OF rest, of "w + workers r"] show ?thesis
        by (cases "slots_workers rs (map (\<lambda>i. routes sol ! i) idxs)") simp_all
    qed
  qed
qed

lemma calc_workers_slots:
  assumes "nat (trucks sol) \<le> length (routes sol)"
  shows "calc_workers rs sol =
     (case slots_workers rs (take (nat (trucks sol)) (routes sol)) of
        None \<Rightarrow> Crashes
      | Some w \<Rightarrow> Returns w)"
proof -
  have "map (\<lambda>i. routes sol ! i) [0 ..< nat (trucks sol)] = take (nat (trucks sol)) (routes sol)"
    using assms by (metis (no_types) take_map map_nth take_upt add_0 )
  moreover have "\<forall>i \<in> set [0 ..< nat (trucks sol)]. i < length (routes sol)"
    using assms by simp
  ultimately show ?thesis
    by (simp add: calc_workers_def calc_workers_from_slots option.map_ident split: option.splits)
qed

lemma update_move_first_any_state:
  "dt \<noteq> 0 \<Longrightarrow>
   update_move_first pb tb sp tp tgt state dt dw0 count fs st =
   update_move_first pb tb sp tp tgt state2 dt dw0 count fs st"
proof (induction fs arbitrary: st)
  case Nil
  show ?case by simp
next
  case (Cons f fs)
  obtain u m src where st: "st = (u, m, src)" by (cases st) auto
  show ?case
    unfolding st update_move_first.simps using Cons.prems
    by (simp add: Let_def Cons.IH [OF Cons.prems] cong: if_cong split: prod.splits bool.splits)
qed

lemma update_move_any_state:
  "len src = EMPTY + len' \<Longrightarrow>
   update_move pb tb m sp src tp tgt state len' = update_move pb tb m sp src tp tgt state2 len'"
  using update_move_first_any_state [of 1 pb tb sp tp tgt state "workers src" "nat len'"
      "[1 ..< length (nodes src) - nat len']" "(0, m, src)" state2]
  by (simp add: update_move_def Let_def)

lemma workers_add_nodes: "workers (add_nodes pb tgt run aft) = workers tgt"
  by (simp add: add_nodes_def add_nodes_noupdate_def Let_def workers_calc_ests workers_calc_lsts)

lemma removed_route_workers:
  assumes sv: "slots_valid rs sol" and i0: "i0 < nat (trucks sol)"
    and at: "routes sol ! i0 = Some sp" and sp: "rs sp = Some src" and tp: "rs tp = Some tgt"
    and ne: "sp \<noteq> tp" and w: "workers tgt' = workers tgt"
    and rts': "routes sol' = take i0 (routes sol)
             @ drop (Suc i0) (take (nat (trucks sol)) (routes sol))
             @ None # drop (nat (trucks sol)) (routes sol)"
    and tr': "trucks sol' = trucks sol - 1"
  shows "Some sp \<notin> set (take (nat (trucks sol')) (routes sol')) \<and>
         (\<exists>w. calc_workers rs sol = Returns w \<and>
              calc_workers ((rs(sp := None))(tp \<mapsto> tgt')) sol' = Returns (w - workers src))"
proof -
  let ?n = "nat (trucks sol)"
  let ?xs = "take ?n (routes sol)"
  let ?P = "take i0 (routes sol)"
  let ?Q = "drop (Suc i0) ?xs"
  let ?rs' = "(rs(sp := None))(tp \<mapsto> tgt')"
  from sv have n: "?n \<le> length (routes sol)" and d: "distinct ?xs"
    and va: "list_all (\<lambda>slot. case slot of None \<Rightarrow> False | Some a \<Rightarrow> rs a \<noteq> None) ?xs"
    by (simp_all add: slots_valid_def)
  from i0 n have li: "i0 < length ?xs" by simp
  from id_take_nth_drop [OF li] i0 at have xs: "?xs = ?P @ Some sp # ?Q"
    by (simp add: min_def)
  from d xs have nin: "Some sp \<notin> set ?P" "Some sp \<notin> set ?Q"
    by (metis distinct_append distinct.simps(2) disjoint_iff list.set_intros(1))+
  have lpq: "length (?P @ ?Q) = nat (trucks sol')"
    using i0 n tr' by simp
  have tk: "take (nat (trucks sol')) (routes sol') = ?P @ ?Q"
    using lpq unfolding rts' by (metis append.assoc append_eq_conv_conj)
  from slots_workers_total [OF va] obtain w where w0: "slots_workers rs ?xs = Some w" by blast
  then have "slots_workers rs (?P @ Some sp # ?Q) = Some w" using xs by simp
  then obtain a q where a: "slots_workers rs ?P = Some a" and q: "slots_workers rs ?Q = Some q"
    and weq: "w = a + (workers src + q)"
    using sp by (auto simp: slots_workers_append split: option.splits)
  have "slots_workers ?rs' (?P @ ?Q) = slots_workers rs (?P @ ?Q)"
  proof (rule slots_workers_cong)
    fix b assume "Some b \<in> set (?P @ ?Q)"
    with nin have "b \<noteq> sp" by auto
    then show "map_option workers (?rs' b) = map_option workers (rs b)"
      using tp w by simp
  qed
  also have "\<dots> = Some (a + q)" using a q by (simp add: slots_workers_append)
  finally have new: "slots_workers ?rs' (take (nat (trucks sol')) (routes sol')) = Some (w - workers src)"
    using weq tk by simp
  have n': "nat (trucks sol') \<le> length (routes sol')"
    using n i0 tr' rts' by simp
  have "calc_workers rs sol = Returns w"
    using w0 by (simp add: calc_workers_slots [OF n])
  moreover have "calc_workers ?rs' sol' = Returns (w - workers src)"
    using new by (simp add: calc_workers_slots [OF n'])
  ultimately show ?thesis using nin tk by auto
qed

text \<open>
  Claim C10.  When \<open>update_move\<close> stores a move for a run of \<open>len\<close> nodes that empties the
  source route (\<open>source->len == len + 2\<close>), the move has \<open>delta_trucks = 1\<close> and its
  \<open>delta_workers\<close> is the whole worker count of the source route; the result does not
  depend on \<open>state\<close>, so \<open>move_reduces_workers\<close>, whose call is guarded by
  \<open>state >= REDUCE_WORKERS\<close> and \<open>!delta_trucks\<close>, has not been consulted.  With the deltas
  \<open>(1, source->workers)\<close> and its distance saving, \<open>delta_is_higher\<close> rates the stored move
  higher than the incumbent \<open>m\<close> that \<open>update_move\<close> was called with.
  \<open>perform_move\<close> on that move then returns with the source route freed and taken out of
  the array, one truck less, and \<open>calc_workers\<close> lower by exactly the workers of the
  removed route.
\<close>

theorem truck_saving_move_takes_all_workers:
  assumes um: "update_move pb tb m sp src tp tgt state len' = (u, m', src')"
    and u: "u \<noteq> 0" and len': "1 \<le> len'" and e: "len src = EMPTY + len'"
    and sp: "rs sp = Some src'" and tp: "rs tp = Some tgt" and ne: "sp \<noteq> tp"
    and sv: "slots_valid rs sol" and iu: "id_unique rs sol sp (route_id src)"
    and used: "Some sp \<in> set (take (nat (trucks sol)) (routes sol))"
  shows "delta_trucks m' = 1 \<and> delta_workers m' = workers src
       \<and> (\<forall>state2. update_move pb tb m sp src tp tgt state2 len' = (u, m', src'))
       \<and> delta_is_higher m 1 (workers src) (delta_dist m') \<noteq> 0
       \<and> (\<exists>rs' sol' tb' m''.
            perform_move pb rs sol tb m' = Returns (rs', sol', tb', m'') \<and>
            rs' sp = None \<and> trucks sol' = trucks sol - 1 \<and>
            Some sp \<notin> set (take (nat (trucks sol')) (routes sol')) \<and>
            (\<exists>w. calc_workers rs sol = Returns w \<and>
                 calc_workers rs' sol' = Returns (w - workers src)))"
proof -
  from update_move_fixed_deltas [OF um u len' disjI1 [OF e]] e
  obtain f where sh: "same_shape src src'" and f: "1 \<le> f" "f + nat len' < length (nodes src)"
    and sc: "stored_candidate sp tp 1 (workers src) f (f + nat len' - 1)
               [0 ..< length (nodes tgt) - 1] m m'"
    by auto
  from sc obtain aft where m': "source m' = Some sp" "target m' = Some tp" "first_n m' = Some f"
      "last_n m' = Some (f + nat len' - 1)" "after m' = Some aft"
    and dt: "delta_trucks m' = 1" and dw: "delta_workers m' = workers src"
    and inc: "delta_is_higher m 1 (workers src) (delta_dist m') \<noteq> 0"
    by (auto simp: stored_candidate_def list_ex_iff)
  from dt have dt0: "delta_trucks m' \<noteq> 0" by simp
  from sh have eqs: "route_id src' = route_id src" "len src' = len src"
      "workers src' = workers src" "length (nodes src') = length (nodes src)"
    by (simp_all add: same_shape_def)
  have "length (move_run src' m') = nat len'"
    using m'(3,4) f len' eqs(4) by (simp add: move_run_def)
  with e eqs(2) len' have e': "len src' = EMPTY + int (length (move_run src' m'))" by simp
  from iu eqs(1) have iu': "id_unique rs sol sp (route_id src')" by simp
  from sv have n: "nat (trucks sol) \<le> length (routes sol)" by (simp add: slots_valid_def)
  from used obtain i0 where i0: "i0 < nat (trucks sol)" and at: "routes sol ! i0 = Some sp"
    using n by (auto simp: in_set_conv_nth)
  let ?rs' = "(rs(sp := None))(tp \<mapsto> add_nodes pb tgt (move_run src' m') aft)"
  let ?sol' = "sol\<lparr>trucks := trucks sol - 1,
           routes := take i0 (routes sol)
             @ drop (Suc i0) (take (nat (trucks sol)) (routes sol))
             @ None # drop (nat (trucks sol)) (routes sol)\<rparr>"
  have pm: "perform_move pb rs sol tb m' =
      Returns (?rs', ?sol', update_tabulist_move tb src' m', init_move (improving m'))"
    by (rule perform_truck_move [OF m' dt0 sp tp ne e' sv iu' i0 at])
  have "Some sp \<notin> set (take (nat (trucks ?sol')) (routes ?sol')) \<and>
         (\<exists>w. calc_workers rs sol = Returns w \<and>
              calc_workers ?rs' ?sol' = Returns (w - workers src'))"
    by (rule removed_route_workers [OF sv i0 at sp tp ne workers_add_nodes]) simp_all
  then have r1: "Some sp \<notin> set (take (nat (trucks ?sol')) (routes ?sol'))"
    and r2: "\<exists>w. calc_workers rs sol = Returns w \<and>
              calc_workers ?rs' ?sol' = Returns (w - workers src)"
    unfolding eqs(3) by blast+
  have r3: "?rs' sp = None" using ne by simp
  have r4: "trucks ?sol' = trucks sol - 1" by simp
  from pm r1 r2 r3 r4 have "\<exists>rs' sol' tb' m''.
            perform_move pb rs sol tb m' = Returns (rs', sol', tb', m'') \<and>
            rs' sp = None \<and> trucks sol' = trucks sol - 1 \<and>
            Some sp \<notin> set (take (nat (trucks sol')) (routes sol')) \<and>
            (\<exists>w. calc_workers rs sol = Returns w \<and>
                 calc_workers rs' sol' = Returns (w - workers src))"
    by blast
  moreover have "\<forall>state2. update_move pb tb m sp src tp tgt state2 len' = (u, m', src')"
    using um update_move_any_state [OF e] by metis
  ultimately show ?thesis using dt dw inc by blast
qed

theorem truck_saving_move_takes_all_workers_witness:
  "update_move (ex_pb 1) ex_tabulist (init_move 1) 21 ex_source 10 ex_route REDUCE_TRUCKS 1
     = (1, (ex_move 21 10)\<lparr>delta_dist := 6, improving := 1\<rparr>, ex_probed)
   \<and> len ex_source = EMPTY + 1 \<and> workers ex_source = 3
   \<and> slots_valid ex_store3 ex_sol3 \<and> id_unique ex_store3 ex_sol3 21 (route_id ex_source)
   \<and> update_move (ex_pb 1) ex_tabulist (init_move 1) 21 ex_source 10 ex_route REDUCE_WORKERS 1
     = (1, (ex_move 21 10)\<lparr>delta_dist := 6, improving := 1\<rparr>, ex_probed)
   \<and> delta_is_higher (init_move 1) 1 3 6 \<noteq> 0
   \<and> update_move (ex_pb 1) ex_tabulist ((ex_move 30 31)\<lparr>delta_workers := 2, delta_dist := 100\<rparr>)
        21 ex_source 10 ex_route REDUCE_TRUCKS 1
     = (1, (ex_move 21 10)\<lparr>delta_dist := 6\<rparr>, ex_probed)
   \<and> delta_is_higher ((ex_move 30 31)\<lparr>delta_workers := 2, delta_dist := 100\<rparr>) 1 3 6 \<noteq> 0
   \<and> update_move (ex_pb 1) ex_tabulist ((ex_move 30 31)\<lparr>delta_dist := 100\<rparr>)
        21 ex_source 10 ex_route REDUCE_TRUCKS 1
     = (0, (ex_move 30 31)\<lparr>delta_dist := 100\<rparr>, ex_source)
   \<and> (\<exists>rs' sol' tb' m''.
        perform_move (ex_pb 1) ex_store3 ex_sol3 ex_tabulist
          ((ex_move 21 10)\<lparr>delta_dist := 6, improving := 1\<rparr>) = Returns (rs', sol', tb', m'') \<and>
        rs' 21 = None \<and> trucks sol' = 1 \<and>
        calc_workers ex_store3 ex_sol3 = Returns 6 \<and> calc_workers rs' sol' = Returns 3)"
proof -
  let ?m = "(ex_move 21 10)\<lparr>delta_dist := 6, improving := 1\<rparr>"
  let ?inc = "(ex_move 30 31)\<lparr>delta_workers := 2, delta_dist := 100\<rparr>"
  have um: "update_move (ex_pb 1) ex_tabulist (init_move 1) 21 ex_source 10 ex_route REDUCE_TRUCKS 1
     = (1, ?m, ex_probed)"
    by code_simp
  have um2: "update_move (ex_pb 1) ex_tabulist ?inc 21 ex_source 10 ex_route REDUCE_TRUCKS 1
     = (1, (ex_move 21 10)\<lparr>delta_dist := 6\<rparr>, ex_probed)"
    by code_simp
  have um3: "update_move (ex_pb 1) ex_tabulist ((ex_move 30 31)\<lparr>delta_dist := 100\<rparr>)
        21 ex_source 10 ex_route REDUCE_TRUCKS 1
     = (0, (ex_move 30 31)\<lparr>delta_dist := 100\<rparr>, ex_source)"
    by code_simp
  have h: "(1::int) \<noteq> 0" "(1::int) \<le> 1" "len ex_source = EMPTY + 1"
    "ex_store3 21 = Some ex_probed" "ex_store3 10 = Some ex_route" "(21::addr) \<noteq> 10"
    by (simp_all add: ex_source_def EMPTY_def ex_store3_def)
  have sv: "slots_valid ex_store3 ex_sol3"
    by (simp add: slots_valid_def ex_store3_def ex_sol3_def)
  have iu: "id_unique ex_store3 ex_sol3 21 (route_id ex_source)"
    by (simp add: id_unique_def ex_store3_def ex_sol3_def ex_source_def ex_route_def)
  have used: "Some 21 \<in> set (take (nat (trucks ex_sol3)) (routes ex_sol3))"
    by (simp add: ex_sol3_def)
  have w: "workers ex_source = 3" "trucks ex_sol3 = 2" by (simp_all add: ex_source_def ex_sol3_def)
  have dd: "delta_dist ?m = 6" "delta_dist ((ex_move 21 10)\<lparr>delta_dist := 6\<rparr>) = 6" by simp_all
  have cw: "calc_workers ex_store3 ex_sol3 = Returns 6" by code_simp
  from truck_saving_move_takes_all_workers [OF um h sv iu used]
  have a: "\<forall>state2. update_move (ex_pb 1) ex_tabulist (init_move 1) 21 ex_source 10 ex_route
        state2 1 = (1, ?m, ex_probed)"
    and b: "\<exists>rs' sol' tb' m''.
            perform_move (ex_pb 1) ex_store3 ex_sol3 ex_tabulist ?m = Returns (rs', sol', tb', m'') \<and>
            rs' 21 = None \<and> trucks sol' = trucks ex_sol3 - 1 \<and>
            Some 21 \<notin> set (take (nat (trucks sol')) (routes sol')) \<and>
            (\<exists>w. calc_workers ex_store3 ex_sol3 = Returns w \<and>
                 calc_workers rs' sol' = Returns (w - workers ex_source))"
    and c: "delta_is_higher (init_move 1) 1 (workers ex_source) (delta_dist ?m) \<noteq> 0"
    by blast+
  from truck_saving_move_takes_all_workers [OF um2 h sv iu used]
  have c2: "delta_is_higher ?inc 1 (workers ex_source)
              (delta_dist ((ex_move 21 10)\<lparr>delta_dist := 6\<rparr>)) \<noteq> 0"
    by blast
  from c c2 have c': "delta_is_higher (init_move 1) 1 3 6 \<noteq> 0" "delta_is_higher ?inc 1 3 6 \<noteq> 0"
    unfolding w(1) dd by simp_all
  from b cw w have "\<exists>rs' sol' tb' m''.
        perform_move (ex_pb 1) ex_store3 ex_sol3 ex_tabulist ?m = Returns (rs', sol', tb', m'') \<and>
        rs' 21 = None \<and> trucks sol' = 1 \<and>
        calc_workers ex_store3 ex_sol3 = Returns 6 \<and> calc_workers rs' sol' = Returns 3"
    by auto
  with um um2 um3 h(3) w(1) sv iu a c' show ?thesis by blast
qed
end
